theory Spec2Isabelle
  imports Main "HOL-Library.Sublist" "HOL-Library.Multiset"
begin

section \<open>Python values, errors and list primitives\<close>

text \<open>
  The exceptions the modelled code can raise. An exception that leaves
  \<^verbatim>\<open>__init__\<close> aborts the construction of the dataset, so every function below that
  can raise returns \<open>py_error + 'a\<close>, with \<open>Inl\<close> the exception.
\<close>

datatype py_error = IndexError | KeyError | ValueError | RuntimeError | FileNotFoundError


definition and_then :: "'e + 'a \<Rightarrow> ('a \<Rightarrow> 'e + 'b) \<Rightarrow> 'e + 'b" where
  "and_then r f = (case r of Inl e \<Rightarrow> Inl e | Inr v \<Rightarrow> f v)"

text \<open>\<^verbatim>\<open>d[k]\<close> on a dict: a missing key raises KeyError.\<close>

definition dict_get :: "('k \<rightharpoonup> 'v) \<Rightarrow> 'k \<Rightarrow> py_error + 'v" where
  "dict_get d k = (case d k of None \<Rightarrow> Inl KeyError | Some v \<Rightarrow> Inr v)"

text \<open>\<^verbatim>\<open>[d[k] for k in ks]\<close>: the first missing key raises.\<close>

fun dict_get_all :: "('k \<rightharpoonup> 'v) \<Rightarrow> 'k list \<Rightarrow> py_error + 'v list" where
  "dict_get_all d [] = Inr []"
| "dict_get_all d (k # ks) =
     and_then (dict_get d k) (\<lambda>v. and_then (dict_get_all d ks) (\<lambda>vs. Inr (v # vs)))"

text \<open>\<^verbatim>\<open>xs[i]\<close> on a list: a negative index counts from the end, out of range raises.\<close>

definition py_index :: "'a list \<Rightarrow> int \<Rightarrow> py_error + 'a" where
  "py_index xs i =
     (if 0 \<le> i \<and> i < int (length xs) then Inr (xs ! nat i)
      else if i < 0 \<and> - int (length xs) \<le> i then Inr (xs ! nat (int (length xs) + i))
      else Inl IndexError)"

text \<open>
  \<^verbatim>\<open>xs[lo:hi]\<close>: each bound is moved into \<open>0..len(xs)\<close> (a negative one counts from
  the end first); the slice is empty when the bounds cross.
\<close>

definition slice_bound :: "int \<Rightarrow> int \<Rightarrow> nat" where
  "slice_bound n i = nat (if i < 0 then max (i + n) 0 else min i n)"

definition py_slice :: "'a list \<Rightarrow> int \<Rightarrow> int \<Rightarrow> 'a list" where
  "py_slice xs lo hi =
     (let n = int (length xs); l = slice_bound n lo; h = slice_bound n hi
      in take (h - l) (drop l xs))"

text \<open>
  \<^verbatim>\<open>range(start, stop, step)\<close>: counts up for a positive step and down for a negative
  one; a zero step raises ValueError.
\<close>

function range_from :: "int \<Rightarrow> int \<Rightarrow> int \<Rightarrow> int list" where
  "range_from start stop step =
     (if (0 < step \<and> start < stop) \<or> (step < 0 \<and> stop < start)
      then start # range_from (start + step) stop step
      else [])"
  by pat_completeness auto
termination
  by (relation "measure (\<lambda>(start, stop, step). nat (if 0 < step then stop - start else start - stop))")
     auto

declare range_from.simps [simp del]

definition py_range :: "int \<Rightarrow> int \<Rightarrow> int \<Rightarrow> py_error + int list" where
  "py_range start stop step =
     (if step = 0 then Inl ValueError else Inr (range_from start stop step))"

section \<open>Frame records and the ordinal of an identifier\<close>

text \<open>
  A row of \<^verbatim>\<open>self.data_frame\<close>, reduced to the four cells the dataset reads:
  \<^verbatim>\<open>row["Video_name"]\<close>, \<^verbatim>\<open>row["Identifier"]\<close>, \<^verbatim>\<open>row["Path"]\<close> and
  \<^verbatim>\<open>row[self.phase_col]\<close> (the field \<open>Phase\<close>). All cells are strings.
\<close>

record row =
  Video_name :: string
  Identifier :: string
  Path :: string
  Phase :: string

text \<open>
  The dict \<^verbatim>\<open>{"identifier": ..., "path": ..., "phase": ...}\<close> kept per frame
  (\<open>identifier\<close> is a reserved word of the theory language, hence the prefix).
\<close>

record frame =
  frame_identifier :: string
  frame_path :: string
  frame_phase :: string

text \<open>\<^verbatim>\<open>s.split("_")\<close>: the tokens between separators; never an empty list.\<close>

fun split_on :: "char \<Rightarrow> string \<Rightarrow> string list" where
  "split_on sep [] = [[]]"
| "split_on sep (c # cs) =
     (let r = split_on sep cs
      in if c = sep then [] # r else (c # hd r) # tl r)"

definition is_digit :: "char \<Rightarrow> bool" where
  "is_digit c = (let n = (of_char c :: nat) in 48 \<le> n \<and> n \<le> 57)"

text \<open>
  \<^verbatim>\<open>re.findall(r"\d+", s)\<close> on an ASCII string: the maximal runs of digits, left to
  right.
\<close>

function findall_digits :: "string \<Rightarrow> string list" where
  "findall_digits [] = []"
| "findall_digits (c # cs) =
     (if is_digit c
      then (c # takeWhile is_digit cs) # findall_digits (dropWhile is_digit cs)
      else findall_digits cs)"
  by pat_completeness auto
termination
  by (relation "measure length") (auto simp: length_dropWhile_le less_Suc_eq_le)

text \<open>
  \<^verbatim>\<open>int(ds)\<close> on a run of decimal digits: its decimal value. CPython refuses to
  convert a text of more than \<^verbatim>\<open>sys.int_info.default_max_str_digits\<close> digits, leading
  zeros counted, and raises ValueError.
\<close>

definition max_str_digits :: nat where
  "max_str_digits = 4300"

definition digit_value :: "char \<Rightarrow> int" where
  "digit_value c = int (of_char c) - 48"

definition int_of_digits :: "string \<Rightarrow> int" where
  "int_of_digits ds = foldl (\<lambda>a c. 10 * a + digit_value c) 0 ds"

definition py_int :: "string \<Rightarrow> py_error + int" where
  "py_int ds = (if max_str_digits < length ds then Inl ValueError else Inr (int_of_digits ds))"

text \<open>
  The sort key of \<^verbatim>\<open>_create_sequences\<close>:
  \<^verbatim>\<open>int(re.findall(r"\d+", x["identifier"].split("_")[-1])[0])\<close>.
  \<^verbatim>\<open>[-1]\<close> cannot fail (split never returns an empty list); \<^verbatim>\<open>[0]\<close> raises
  IndexError when the last token has no digit, and \<^verbatim>\<open>int\<close> raises ValueError on a run
  that is too long.
\<close>

definition ordinal :: "string \<Rightarrow> py_error + int" where
  "ordinal ident =
     (case findall_digits (last (split_on (CHR ''_'') ident)) of
        [] \<Rightarrow> Inl IndexError
      | ds # _ \<Rightarrow> py_int ds)"

text \<open>
  \<^verbatim>\<open>sorted(frames, key=...)\<close>: the key of every element is computed first (any failure
  raises), then the list is sorted stably by key.
\<close>

fun ordinals :: "frame list \<Rightarrow> py_error + int list" where
  "ordinals [] = Inr []"
| "ordinals (f # fs) =
     and_then (ordinal (frame_identifier f)) (\<lambda>k. and_then (ordinals fs) (\<lambda>ks. Inr (k # ks)))"

definition sorted_frames :: "frame list \<Rightarrow> py_error + frame list" where
  "sorted_frames frames =
     and_then (ordinals frames) (\<lambda>ks. Inr (map snd (sort_key fst (zip ks frames))))"

section \<open>The phase vocabulary\<close>

definition chronological_phases :: "string list" where
  "chronological_phases =
     [''tPB2'', ''tPNa'', ''tPNf'', ''t2'', ''t3'', ''t4'', ''t5'', ''t6'', ''t7'', ''t8'',
      ''t9+'', ''tM'', ''tSB'', ''tB'', ''tEB'']"

text \<open>
  \<^verbatim>\<open>[p for p in chronological_phases if p in self.data_frame[phase_col].unique()]\<close>
\<close>

definition present_phases :: "row list \<Rightarrow> string list" where
  "present_phases df = filter (\<lambda>p. p \<in> set (map Phase df)) chronological_phases"

text \<open>
  \<^verbatim>\<open>{label: index for index, label in enumerate(self.phase_labels)}\<close>: the entries are
  stored in order, a later entry for the same key replacing an earlier one.
\<close>

definition index_dict :: "string list \<Rightarrow> (string \<rightharpoonup> nat)" where
  "index_dict labels =
     foldl (\<lambda>d (index, label). d(label \<mapsto> index)) Map.empty (enumerate 0 labels)"

section \<open>The dataset object and \<^verbatim>\<open>_create_sequences\<close>\<close>

text \<open>
  The attributes of \<^verbatim>\<open>self\<close> that the windowing code reads or writes. Python integers
  are unbounded, hence \<open>int\<close>.
\<close>

record dataset =
  window_size :: int
  stride :: int
  multiple_phases :: bool
  mode :: string
  data_frame :: "row list"
  phase_labels :: "string list"
  phase_to_index :: "string \<rightharpoonup> nat"
  video_sequences :: "frame list list"

text \<open>
  \<^verbatim>\<open>grouped[video].append(...)\<close> on a \<^verbatim>\<open>defaultdict(list)\<close>: the keys keep the order
  of their first insertion, the frames of a video the order of the rows.
\<close>

fun grouped_append :: "(string \<times> frame list) list \<Rightarrow> string \<Rightarrow> frame \<Rightarrow> (string \<times> frame list) list" where
  "grouped_append [] video f = [(video, [f])]"
| "grouped_append ((k, fs) # rest) video f =
     (if k = video then (k, fs @ [f]) # rest else (k, fs) # grouped_append rest video f)"

definition frame_of_row :: "row \<Rightarrow> frame" where
  "frame_of_row r =
     \<lparr>frame_identifier = Identifier r, frame_path = Path r, frame_phase = Phase r\<rparr>"

definition grouped :: "row list \<Rightarrow> (string \<times> frame list) list" where
  "grouped df = foldl (\<lambda>g r. grouped_append g (Video_name r) (frame_of_row r)) [] df"

text \<open>
  The body of the inner loop, lines 210 to 221: \<open>Inr True\<close> when the window is appended,
  \<open>Inr False\<close> on \<^verbatim>\<open>continue\<close>. \<^verbatim>\<open>list(set(...))\<close> lists the distinct phases in an
  order Python does not fix; the only use of that order is the list that is sorted on
  the next line.
\<close>

definition window_retained :: "bool \<Rightarrow> (string \<rightharpoonup> nat) \<Rightarrow> frame list \<Rightarrow> py_error + bool" where
  "window_retained permissive p2i sequence =
     (if \<not> permissive then
        (let unique_phases = remdups (map frame_phase sequence) in
         if length unique_phases > 2 then Inr False
         else if length unique_phases = 2 then
           and_then (dict_get_all p2i unique_phases) (\<lambda>phase_indices.
             let phase_indices = sort phase_indices in
             if phase_indices ! 1 \<noteq> phase_indices ! 0 + 1 then Inr False else Inr True)
         else Inr True)
      else Inr True)"

text \<open>The loop over \<^verbatim>\<open>start\<close>; \<open>seqs\<close> is \<^verbatim>\<open>self.video_sequences\<close>.\<close>

fun window_loop ::
  "bool \<Rightarrow> (string \<rightharpoonup> nat) \<Rightarrow> int \<Rightarrow> frame list \<Rightarrow> int list \<Rightarrow> frame list list
   \<Rightarrow> py_error + frame list list" where
  "window_loop permissive p2i w frames [] seqs = Inr seqs"
| "window_loop permissive p2i w frames (start # starts) seqs =
     (let sequence = py_slice frames start (start + w) in
      and_then (window_retained permissive p2i sequence) (\<lambda>keep.
        window_loop permissive p2i w frames starts (if keep then seqs @ [sequence] else seqs)))"

text \<open>
  Lines 206 to 221 for one video whose frames are already sorted:
  \<^verbatim>\<open>for start in range(0, len(sorted_frames) - self.window_size + 1, self.stride)\<close>.
\<close>

definition video_windows ::
  "bool \<Rightarrow> (string \<rightharpoonup> nat) \<Rightarrow> int \<Rightarrow> int \<Rightarrow> frame list \<Rightarrow> frame list list
   \<Rightarrow> py_error + frame list list" where
  "video_windows permissive p2i w s frames seqs =
     and_then (py_range 0 (int (length frames) - w + 1) s) (\<lambda>starts.
       window_loop permissive p2i w frames starts seqs)"

fun video_loop ::
  "bool \<Rightarrow> (string \<rightharpoonup> nat) \<Rightarrow> int \<Rightarrow> int \<Rightarrow> (string \<times> frame list) list \<Rightarrow> frame list list
   \<Rightarrow> py_error + frame list list" where
  "video_loop permissive p2i w s [] seqs = Inr seqs"
| "video_loop permissive p2i w s ((video, frames) # rest) seqs =
     and_then (sorted_frames frames) (\<lambda>sorted.
       and_then (video_windows permissive p2i w s sorted seqs) (\<lambda>seqs'.
         video_loop permissive p2i w s rest seqs'))"

definition create_sequences :: "dataset \<Rightarrow> py_error + dataset" where
  "create_sequences self =
     and_then
       (video_loop (multiple_phases self) (phase_to_index self) (window_size self) (stride self)
          (grouped (data_frame self)) (video_sequences self))
       (\<lambda>seqs. Inr (self\<lparr>video_sequences := seqs\<rparr>))"

section \<open>Transition flags, \<^verbatim>\<open>_balance_flags\<close> and the diagnostics\<close>

text \<open>
  Python's \<^verbatim>\<open>random\<close> module is not part of the repository; it is a parameter. \<open>'g\<close>
  is the state of the module's global generator. \<^verbatim>\<open>random.sample(population, k)\<close>
  and \<^verbatim>\<open>random.shuffle(x)\<close> never look at the elements, only at \<^verbatim>\<open>len\<close>: they are
  given by the positions they choose, so that a drawn window is the very element of the
  population at the chosen position.
\<close>

record 'g py_random =
  random_seed :: "int \<Rightarrow> 'g"
  random_sample :: "'g \<Rightarrow> nat \<Rightarrow> nat \<Rightarrow> nat list \<times> 'g"
  random_shuffle :: "'g \<Rightarrow> nat \<Rightarrow> nat list \<times> 'g"
  random_randint :: "'g \<Rightarrow> int \<Rightarrow> int \<Rightarrow> int \<times> 'g"

text \<open>
  What the documentation of the module promises: \<^verbatim>\<open>sample\<close> returns \<open>k\<close> distinct
  positions of the population (sampling without replacement), \<^verbatim>\<open>shuffle\<close> a
  rearrangement of all positions.
\<close>

definition random_contract :: "'g py_random \<Rightarrow> bool" where
  "random_contract R \<longleftrightarrow>
     (\<forall>g n k. k \<le> n \<longrightarrow>
        length (fst (random_sample R g n k)) = k
        \<and> distinct (fst (random_sample R g n k))
        \<and> set (fst (random_sample R g n k)) \<subseteq> {..<n})
     \<and> (\<forall>g n. mset (fst (random_shuffle R g n)) = mset [0..<n])"

text \<open>\<^verbatim>\<open>random.sample\<close> raises ValueError when the sample is larger than the population.\<close>

definition py_sample :: "'g py_random \<Rightarrow> 'g \<Rightarrow> 'a list \<Rightarrow> nat \<Rightarrow> py_error + ('a list \<times> 'g)" where
  "py_sample R g population k =
     (if k \<le> length population
      then (let (idx, g') = random_sample R g (length population) k
            in Inr (map (\<lambda>i. population ! i) idx, g'))
      else Inl ValueError)"

definition py_shuffle :: "'g py_random \<Rightarrow> 'g \<Rightarrow> 'a list \<Rightarrow> 'a list \<times> 'g" where
  "py_shuffle R g x =
     (let (idx, g') = random_shuffle R g (length x) in (map (\<lambda>i. x ! i) idx, g'))"

text \<open>
  \<^verbatim>\<open>labels = [self.phase_to_index[frame["phase"]] for frame in seq]\<close> followed by
  \<^verbatim>\<open>labels[0] == labels[-1]\<close>: the test shared by \<^verbatim>\<open>_balance_flags\<close>,
  \<^verbatim>\<open>_print_flag_consistency\<close> and \<^verbatim>\<open>__getitem__\<close>. \<open>Inr True\<close> is flag 0.
\<close>

definition same_end_labels :: "(string \<rightharpoonup> nat) \<Rightarrow> frame list \<Rightarrow> py_error + bool" where
  "same_end_labels p2i seq =
     and_then (dict_get_all p2i (map frame_phase seq)) (\<lambda>labels.
       and_then (py_index labels 0) (\<lambda>first.
         and_then (py_index labels (- 1)) (\<lambda>last. Inr (first = last))))"

text \<open>The loop of \<^verbatim>\<open>_balance_flags\<close>, lines 224 to 230.\<close>

fun flag_partition ::
  "(string \<rightharpoonup> nat) \<Rightarrow> frame list list \<Rightarrow> frame list list \<Rightarrow> frame list list
   \<Rightarrow> py_error + (frame list list \<times> frame list list)" where
  "flag_partition p2i [] flag_0_seqs flag_1_seqs = Inr (flag_0_seqs, flag_1_seqs)"
| "flag_partition p2i (seq # rest) flag_0_seqs flag_1_seqs =
     and_then (same_end_labels p2i seq) (\<lambda>same.
       if same then flag_partition p2i rest (flag_0_seqs @ [seq]) flag_1_seqs
       else flag_partition p2i rest flag_0_seqs (flag_1_seqs @ [seq]))"

text \<open>
  \<^verbatim>\<open>_balance_flags\<close>, with the generator's state passed in and out. The state on entry
  is replaced by \<^verbatim>\<open>random.seed(42)\<close>; the two samples and the shuffle draw from it in
  that order.
\<close>

definition balance_flags :: "'g py_random \<Rightarrow> 'g \<Rightarrow> dataset \<Rightarrow> py_error + (dataset \<times> 'g)" where
  "balance_flags R g self =
     and_then (flag_partition (phase_to_index self) (video_sequences self) [] [])
       (\<lambda>(flag_0_seqs, flag_1_seqs).
          let n = min (length flag_0_seqs) (length flag_1_seqs);
              g1 = random_seed R 42
          in and_then (py_sample R g1 flag_0_seqs n) (\<lambda>(drawn_0, g2).
               and_then (py_sample R g2 flag_1_seqs n) (\<lambda>(drawn_1, g3).
                 let (shuffled, g4) = py_shuffle R g3 (drawn_0 @ drawn_1)
                 in Inr (self\<lparr>video_sequences := shuffled\<rparr>, g4))))"

text \<open>\<^verbatim>\<open>_print_flag_consistency\<close>: the two counts it prints.\<close>

fun flag_counts ::
  "(string \<rightharpoonup> nat) \<Rightarrow> frame list list \<Rightarrow> nat \<Rightarrow> nat \<Rightarrow> py_error + (nat \<times> nat)" where
  "flag_counts p2i [] flag_0 flag_1 = Inr (flag_0, flag_1)"
| "flag_counts p2i (seq # rest) flag_0 flag_1 =
     and_then (same_end_labels p2i seq) (\<lambda>same.
       if same then flag_counts p2i rest (flag_0 + 1) flag_1
       else flag_counts p2i rest flag_0 (flag_1 + 1))"

definition print_flag_consistency :: "dataset \<Rightarrow> py_error + (nat \<times> nat)" where
  "print_flag_consistency self =
     flag_counts (phase_to_index self) (video_sequences self) 0 0"

text \<open>\<^verbatim>\<open>_print_transition_matrix\<close>: the matrix it prints.\<close>

fun transition_matrix_loop ::
  "(string \<rightharpoonup> nat) \<Rightarrow> frame list list \<Rightarrow> nat list list \<Rightarrow> py_error + nat list list" where
  "transition_matrix_loop p2i [] m = Inr m"
| "transition_matrix_loop p2i (sequence # rest) m =
     and_then (py_index sequence 0) (\<lambda>f0.
       and_then (dict_get p2i (frame_phase f0)) (\<lambda>first_phase.
         and_then (py_index sequence (- 1)) (\<lambda>f1.
           and_then (dict_get p2i (frame_phase f1)) (\<lambda>last_phase.
             and_then (py_index m (int first_phase)) (\<lambda>r.
               and_then (py_index r (int last_phase)) (\<lambda>c.
                 transition_matrix_loop p2i rest
                   (m[first_phase := r[last_phase := c + 1]])))))))"

definition print_transition_matrix :: "dataset \<Rightarrow> py_error + nat list list" where
  "print_transition_matrix self =
     (let num_phases = length (phase_labels self)
      in transition_matrix_loop (phase_to_index self) (video_sequences self)
           (replicate num_phases (replicate num_phases 0)))"

section \<open>\<^verbatim>\<open>__init__\<close>\<close>

text \<open>
  The arguments of the constructor that reach the modelled code. \<^verbatim>\<open>transform\<close> belongs
  to the image loader, \<^verbatim>\<open>phase_col\<close> is the column read into \<open>Phase\<close>, \<^verbatim>\<open>path_col\<close> is
  stored and never read.
\<close>

record init_args =
  arg_seed :: int
  arg_FocalType :: string
  arg_window_size :: int
  arg_stride :: int
  arg_UsedFor :: string
  arg_NumberOfVideos :: int
  arg_balance_flags :: bool
  arg_multiple_phases :: bool
  arg_mode :: string

text \<open>
  \<^verbatim>\<open>__init__\<close>. Lines 119 to 139 (reading the CSV file of the focal type, filtering it by
  split, dropping phase tHB, sampling \<^verbatim>\<open>NumberOfVideos\<close> videos and shuffling the rows,
  both with \<^verbatim>\<open>random_state=seed\<close>) are pandas and file access: they are the parameter
  \<open>read_frame\<close>, a function of the four arguments they use. This is the only place
  where \<^verbatim>\<open>seed\<close> is read. The result is \<^verbatim>\<open>self\<close> with the diagnostics printed and the
  state of the generator.
\<close>

definition dataset_init ::
  "'g py_random \<Rightarrow> (string \<Rightarrow> string \<Rightarrow> int \<Rightarrow> int \<Rightarrow> py_error + row list) \<Rightarrow> init_args \<Rightarrow> 'g
   \<Rightarrow> py_error + (dataset \<times> 'g)" where
  "dataset_init R read_frame a g =
     and_then (read_frame (arg_FocalType a) (arg_UsedFor a) (arg_NumberOfVideos a) (arg_seed a))
       (\<lambda>df.
          let present = present_phases df;
              self = \<lparr>window_size = arg_window_size a, stride = arg_stride a,
                      multiple_phases = arg_multiple_phases a, mode = arg_mode a,
                      data_frame = df, phase_labels = present,
                      phase_to_index = index_dict present, video_sequences = []\<rparr>
          in and_then (create_sequences self) (\<lambda>self.
               and_then (if arg_balance_flags a then balance_flags R g self else Inr (self, g))
                 (\<lambda>(self, g').
                    and_then (print_flag_consistency self) (\<lambda>_.
                      and_then (print_transition_matrix self) (\<lambda>_. Inr (self, g'))))))"

section \<open>\<^verbatim>\<open>__getitem__\<close>\<close>

text \<open>
  Image decoding and tensors are torch and PIL: \<open>load\<close> is the \<^verbatim>\<open>try\<close> block (open,
  convert, transform; \<open>None\<close> when it raises), \<open>gray\<close> the channel mean. The loop returns
  \<open>None\<close> (the sample is skipped) at the first image that does not load.
\<close>

fun load_frames ::
  "(string \<Rightarrow> 'img option) \<Rightarrow> (string \<rightharpoonup> nat) \<Rightarrow> frame list
   \<Rightarrow> py_error + ('img list \<times> nat list \<times> string list) option" where
  "load_frames load p2i [] = Inr (Some ([], [], []))"
| "load_frames load p2i (f # fs) =
     (case load (frame_path f) of
        None \<Rightarrow> Inr None
      | Some img \<Rightarrow>
          and_then (dict_get p2i (frame_phase f)) (\<lambda>label.
            and_then (load_frames load p2i fs) (\<lambda>r.
              Inr (map_option
                     (\<lambda>(images_seq, labels, identifiers).
                        (img # images_seq, label # labels, frame_identifier f # identifiers))
                     r))))"

text \<open>\<^verbatim>\<open>torch.stack\<close> raises RuntimeError on an empty list.\<close>

definition torch_stack :: "'img list \<Rightarrow> py_error + 'img list" where
  "torch_stack xs = (if xs = [] then Inl RuntimeError else Inr xs)"

text \<open>The returned tuple: the stacked images, the flag, the first and the last phase index.\<close>

definition getitem ::
  "(string \<Rightarrow> 'img option) \<Rightarrow> ('img \<Rightarrow> 'img) \<Rightarrow> dataset \<Rightarrow> int
   \<Rightarrow> py_error + ('img list \<times> int \<times> nat \<times> nat) option" where
  "getitem load gray self idx =
     and_then (py_index (video_sequences self) idx) (\<lambda>sequence.
       and_then (load_frames load (phase_to_index self) sequence) (\<lambda>loaded.
         case loaded of
           None \<Rightarrow> Inr None
         | Some (images_seq, labels, identifiers) \<Rightarrow>
             and_then
               (if mode self = ''video'' then torch_stack images_seq
                else if mode self = ''image_seq'' then torch_stack (map gray images_seq)
                else Inl ValueError)
               (\<lambda>images_seq.
                  if int (length identifiers) \<noteq> window_size self then Inl ValueError
                  else
                    and_then (py_index sequence 0) (\<lambda>f0.
                      and_then (dict_get (phase_to_index self) (frame_phase f0)) (\<lambda>first_frame_phase.
                        and_then (py_index sequence (- 1)) (\<lambda>f1.
                          and_then (dict_get (phase_to_index self) (frame_phase f1)) (\<lambda>last_frame_phase.
                            and_then (py_index labels 0) (\<lambda>l0.
                              and_then (py_index labels (- 1)) (\<lambda>l1.
                                let consistency_flag = (if l0 = l1 then 0 else 1)
                                in Inr (Some (images_seq, consistency_flag,
                                              first_frame_phase, last_frame_phase)))))))))))"

section \<open>Online prediction: \<^verbatim>\<open>Doctor.predictTransitions\<close> and the route\<close>

text \<open>
  The file system, the image decoder and the model are parameters:
  \<open>path_exists\<close> is \<^verbatim>\<open>os.path.exists\<close>; \<open>decode_image\<close> is the body of the inner
  \<^verbatim>\<open>try\<close> (base64 decoding, opening, resizing), \<open>None\<close> when it raises;
  \<open>channel_mean\<close> is the grayscale conversion; \<open>torch_load\<close> loads the model, \<open>None\<close>
  when it raises; \<open>model_predict\<close> is
  \<^verbatim>\<open>int(torch.round(torch.sigmoid(model(window))).item())\<close> on a window in the given
  mode, \<open>None\<close> when it raises.
\<close>

record ('img, 'model) torch_env =
  path_exists :: "string \<Rightarrow> bool"
  decode_image :: "string \<Rightarrow> 'img option"
  channel_mean :: "'img \<Rightarrow> 'img"
  torch_load :: "string \<Rightarrow> 'model option"
  model_predict :: "'model \<Rightarrow> string \<Rightarrow> 'img list \<Rightarrow> int option"

text \<open>
  The messages of the failures, and the two shapes of the result: \<^verbatim>\<open>(False, message)\<close>
  and \<^verbatim>\<open>(True, predictions, is_random)\<close>.
\<close>

datatype message =
    Unsupported_frame_count int
  | Error_processing_image nat
  | Error_predicting_transitions
  | Need_at_least_images int nat
  | User_not_authenticated

datatype prediction_result = Fail message | Predictions "int list" bool

text \<open>Lines 606 to 613: one \<^verbatim>\<open>random.randint(0, 1)\<close> per value of \<^verbatim>\<open>i\<close>.\<close>

fun random_predictions :: "'g py_random \<Rightarrow> 'g \<Rightarrow> int list \<Rightarrow> int list \<times> 'g" where
  "random_predictions R g [] = ([], g)"
| "random_predictions R g (i # rest) =
     (let (prediction, g') = random_randint R g 0 1;
          (predictions, g'') = random_predictions R g' rest
      in (prediction # predictions, g''))"

text \<open>Lines 626 to 637: the first image that fails ends the request with its position.\<close>

fun decode_images :: "('img, 'model) torch_env \<Rightarrow> nat \<Rightarrow> string list \<Rightarrow> message + 'img list" where
  "decode_images E i [] = Inr []"
| "decode_images E i (img_base64 # rest) =
     (case decode_image E img_base64 of
        None \<Rightarrow> Inl (Error_processing_image i)
      | Some img_tensor \<Rightarrow>
          (case decode_images E (Suc i) rest of
             Inl m \<Rightarrow> Inl m
           | Inr processed \<Rightarrow> Inr (img_tensor # processed)))"

text \<open>Lines 657 to 665: the window \<^verbatim>\<open>images_tensor[i:i+frame_count]\<close> for each \<^verbatim>\<open>i\<close>.\<close>

fun window_predictions ::
  "('img, 'model) torch_env \<Rightarrow> 'model \<Rightarrow> string \<Rightarrow> int \<Rightarrow> 'img list \<Rightarrow> int list \<Rightarrow> int list option" where
  "window_predictions E model md frame_count images_tensor [] = Some []"
| "window_predictions E model md frame_count images_tensor (i # rest) =
     (case model_predict E model md (py_slice images_tensor i (i + frame_count)) of
        None \<Rightarrow> None
      | Some prediction \<Rightarrow>
          map_option (\<lambda>predictions. prediction # predictions)
            (window_predictions E model md frame_count images_tensor rest))"

text \<open>
  Lines 640 to 646: the stacked images, averaged over the channels in the mode of the
  image sequences (the only other mode).
\<close>

definition stack_images :: "('img, 'model) torch_env \<Rightarrow> string \<Rightarrow> 'img list \<Rightarrow> py_error + 'img list" where
  "stack_images E md processed_images =
     (if md = ''video'' then torch_stack processed_images
      else torch_stack (map (channel_mean E) processed_images))"

text \<open>
  Lines 603 to 672, once the model path and the mode are chosen. Every exception that is
  not an image's ends in the outer \<^verbatim>\<open>except\<close>: \<^verbatim>\<open>torch.stack\<close> of no image at all,
  the loading of the model, the model itself.
\<close>

definition predict_with ::
  "('img, 'model) torch_env \<Rightarrow> 'g py_random \<Rightarrow> 'g \<Rightarrow> string list \<Rightarrow> int \<Rightarrow> string \<Rightarrow> string
   \<Rightarrow> prediction_result \<times> 'g" where
  "predict_with E R g images frame_count model_path md =
     (if \<not> path_exists E model_path then
        (let (predictions, g') =
               random_predictions R g (range_from 0 (int (length images) - frame_count + 1) 1)
         in (Predictions predictions True, g'))
      else
        (case decode_images E 0 images of
           Inl m \<Rightarrow> (Fail m, g)
         | Inr processed_images \<Rightarrow>
             (case stack_images E md processed_images of
                Inl _ \<Rightarrow> (Fail Error_predicting_transitions, g)
              | Inr images_tensor \<Rightarrow>
                  (case torch_load E model_path of
                     None \<Rightarrow> (Fail Error_predicting_transitions, g)
                   | Some model \<Rightarrow>
                       (case window_predictions E model md frame_count images_tensor
                               (range_from 0 (int (length processed_images) - frame_count + 1) 1) of
                          None \<Rightarrow> (Fail Error_predicting_transitions, g)
                        | Some predictions \<Rightarrow> (Predictions predictions False, g))))))"

text \<open>
  Lines 594 to 601: the model file and the mode of the two supported frame counts; any
  other frame count ends the call.
\<close>

definition model_choice :: "int \<Rightarrow> (string \<times> string) option" where
  "model_choice frame_count =
     (if frame_count = 8 then Some (''../Results/resnet18/best_model.pth'', ''image_seq'')
      else if frame_count = 32 then Some (''../Results/timesformer/best_model.pth'', ''video'')
      else None)"

text \<open>\<^verbatim>\<open>predictTransitions(images, frame_count, user_id)\<close>; \<^verbatim>\<open>user_id\<close> is not used.\<close>

definition predictTransitions ::
  "('img, 'model) torch_env \<Rightarrow> 'g py_random \<Rightarrow> 'g \<Rightarrow> string list \<Rightarrow> int
   \<Rightarrow> prediction_result \<times> 'g" where
  "predictTransitions E R g images frame_count =
     (case model_choice frame_count of
        None \<Rightarrow> (Fail (Unsupported_frame_count frame_count), g)
      | Some (model_path, md) \<Rightarrow> predict_with E R g images frame_count model_path md)"

text \<open>
  The request of the route \<^verbatim>\<open>Embryo_Predict\<close>: the user id of the session, and the JSON
  body with its two fields. \<^verbatim>\<open>frame_count\<close> may be absent (then 8), a value \<^verbatim>\<open>int\<close>
  accepts, or one on which \<^verbatim>\<open>int\<close> raises; \<^verbatim>\<open>images\<close> may be absent (then the empty
  list). No body at all makes \<^verbatim>\<open>data.get\<close> raise.
\<close>

datatype frame_count_field = Field_absent | Field_int int | Field_invalid

record predict_request =
  session_user_id :: "int option"
  json_body :: "(frame_count_field \<times> string list option) option"

text \<open>The response: the HTTP status and the JSON payload.\<close>

definition Embryo_Predict ::
  "('img, 'model) torch_env \<Rightarrow> 'g py_random \<Rightarrow> 'g \<Rightarrow> predict_request
   \<Rightarrow> (nat \<times> prediction_result) \<times> 'g" where
  "Embryo_Predict E R g req =
     (if session_user_id req = None \<or> session_user_id req = Some 0 then
        ((401, Fail User_not_authenticated), g)
      else
        (case json_body req of
           None \<Rightarrow> ((500, Fail Error_predicting_transitions), g)
         | Some (Field_invalid, _) \<Rightarrow> ((500, Fail Error_predicting_transitions), g)
         | Some (field, images_field) \<Rightarrow>
             (let frame_count = (case field of Field_int n \<Rightarrow> n | _ \<Rightarrow> 8);
                  images = (case images_field of None \<Rightarrow> [] | Some xs \<Rightarrow> xs)
              in if int (length images) < frame_count then
                   ((400, Fail (Need_at_least_images frame_count (length images))), g)
                 else
                   (case predictTransitions E R g images frame_count of
                      (Predictions predictions is_random, g') \<Rightarrow>
                        ((200, Predictions predictions is_random), g')
                    | (Fail m, g') \<Rightarrow> ((400, Fail m), g')))))"

section \<open>The coherence rule in the words of the specification\<close>

text \<open>
  The chronology index of a phase is its position in the canonical list. A window is
  coherent for a given indexing of the phases when its frames show at most one phase,
  or exactly two phases whose indices differ by exactly one. These definitions are
  written from the specification, whose rule is \<open>spec_coherent chronology_index\<close>;
  \<open>window_retained\<close> is the code.
\<close>

definition chronology_index :: "string \<rightharpoonup> nat" where
  "chronology_index = index_dict chronological_phases"

definition spec_coherent :: "(string \<rightharpoonup> nat) \<Rightarrow> frame list \<Rightarrow> bool" where
  "spec_coherent p2i seq =
     (let P = frame_phase ` set seq
      in card P \<le> 1
         \<or> (card P = 2 \<and> (\<exists>a\<in>P. \<exists>b\<in>P. p2i a \<noteq> None \<and> map_option Suc (p2i a) = p2i b)))"

section \<open>The ordinal in the words of the specification\<close>




section \<open>Example data\<close>

definition frame_at :: "string \<Rightarrow> string \<Rightarrow> frame" where
  "frame_at i p =
     \<lparr>frame_identifier = ''v1_RUN'' @ i, frame_path = ''img/'' @ i, frame_phase = p\<rparr>"

text \<open>
  A generator whose state counts the draws: it samples the last \<open>k\<close> positions, shuffles
  by reversing, and always answers the lower bound.
\<close>

definition counting_random :: "nat py_random" where
  "counting_random =
     \<lparr>random_seed = (\<lambda>a. nat \<bar>a\<bar>),
      random_sample = (\<lambda>g n k. (rev (drop (n - k) [0..<n]), Suc g)),
      random_shuffle = (\<lambda>g n. (rev [0..<n], Suc g)),
      random_randint = (\<lambda>g lo hi. (lo, Suc g))\<rparr>"

definition example_index :: "string \<rightharpoonup> nat" where
  "example_index = [''t2'' \<mapsto> 0, ''t3'' \<mapsto> 1, ''t4'' \<mapsto> 2]"

definition row_at :: "string \<Rightarrow> string \<Rightarrow> string \<Rightarrow> row" where
  "row_at video i p =
     \<lparr>Video_name = video, Identifier = video @ ''_RUN'' @ i, Path = ''img/'' @ video @ ''/'' @ i,
      Phase = p\<rparr>"

definition example_rows :: "row list" where
  "example_rows =
     [row_at ''v1'' ''2'' ''t4'', row_at ''v2'' ''1'' ''tB'', row_at ''v1'' ''1'' ''t2'',
      row_at ''v2'' ''2'' ''tB'', row_at ''v1'' ''3'' ''t4'', row_at ''v2'' ''3'' ''unknown'']"

definition example_dataset :: dataset where
  "example_dataset =
     \<lparr>window_size = 2, stride = 1, multiple_phases = False, mode = ''image_seq'',
      data_frame = [], phase_labels = [''t2'', ''t3'', ''t4''], phase_to_index = example_index,
      video_sequences =
        [[frame_at ''1'' ''t2'', frame_at ''2'' ''t3''],
         [frame_at ''3'' ''t4'', frame_at ''4'' ''t4'']]\<rparr>"


text \<open>
  An environment for the online path: images are their base64 text, every image
  decodes, the model loads when its file exists and predicts the parity of the number
  of characters of the first frame of the window.
\<close>

definition example_env :: "bool \<Rightarrow> (string, unit) torch_env" where
  "example_env model_present =
     \<lparr>path_exists = (\<lambda>p. model_present), decode_image = Some, channel_mean = id,
      torch_load = (\<lambda>p. Some ()),
      model_predict = (\<lambda>model md window. Some (int (length (hd window)) mod 2))\<rparr>"

definition example_images :: "string list" where
  "example_images = [''a'', ''bb'', ''c'', ''dd'', ''e'', ''ff'', ''g'', ''hh'', ''i'', ''jj'']"

definition short_request :: predict_request where
  "short_request =
     \<lparr>session_user_id = Some 7, json_body = Some (Field_int 8, Some (take 5 example_images))\<rparr>"

definition skip_rows :: "row list" where
  "skip_rows =
     [row_at ''v1'' ''1'' ''t2'', row_at ''v1'' ''2'' ''t2'', row_at ''v1'' ''3'' ''t4'',
      row_at ''v1'' ''4'' ''t4'']"

text \<open>
  A population for the balancer: the first window changes phase, the other two do not.
\<close>

definition balancer_example :: dataset where
  "balancer_example =
     example_dataset\<lparr>video_sequences :=
        [[frame_at ''1'' ''t2'', frame_at ''2'' ''t3''],
         [frame_at ''3'' ''t4'', frame_at ''4'' ''t4''],
         [frame_at ''5'' ''t4'', frame_at ''6'' ''t4'']]\<rparr>"

text \<open>A population without a window of flag 1, and one with a phase that has no index.\<close>

definition one_class_example :: dataset where
  "one_class_example =
     example_dataset\<lparr>video_sequences :=
        [[frame_at ''3'' ''t4'', frame_at ''4'' ''t4''],
         [frame_at ''5'' ''t4'', frame_at ''6'' ''t4'']]\<rparr>"

definition unindexed_example :: dataset where
  "unindexed_example =
     example_dataset\<lparr>video_sequences :=
        [[frame_at ''3'' ''t4'', frame_at ''4'' ''t4''],
         [frame_at ''5'' ''t4'', frame_at ''6'' ''unknown'']]\<rparr>"

section \<open>The window generator\<close>

lemma range_from_pos:
  "0 < s \<Longrightarrow> range_from a b s = map (\<lambda>k. a + int k * s) [0..<nat ((b - a + s - 1) div s)]"
proof (induction a b s rule: range_from.induct)
  case (1 start stop step)
  show ?case
  proof (cases "start < stop")
    case True
    have d: "(stop - start + step - 1) div step = (stop - (start + step) + step - 1) div step + 1"
    proof -
      have "stop - start + step - 1 = (stop - (start + step) + step - 1) + step" by simp
      then show ?thesis using 1(2) by (metis div_add_self2 less_irrefl)
    qed
    have nn: "0 \<le> (stop - (start + step) + step - 1) div step"
      using True 1(2) by (simp add: pos_imp_zdiv_nonneg_iff)
    have n: "nat ((stop - start + step - 1) div step) = Suc (nat ((stop - (start + step) + step - 1) div step))"
      using d nn by simp
    have ih: "range_from (start + step) stop step
        = map (\<lambda>k. start + step + int k * step) [0..<nat ((stop - (start + step) + step - 1) div step)]"
      using 1 True by simp
    have "range_from start stop step = start # range_from (start + step) stop step"
      using True 1(2) by (subst range_from.simps) simp
    also have "\<dots> = map (\<lambda>k. start + int k * step) [0..<nat ((stop - start + step - 1) div step)]"
      unfolding ih n upt_conv_Cons[OF zero_less_Suc] map_Suc_upt[symmetric]
      by (simp add: algebra_simps del: upt_Suc)
    finally show ?thesis .
  next
    case False
    then have "(stop - start + step - 1) div step \<le> 0"
    proof (cases "0 \<le> stop - start + step - 1")
      case True
      with False have "(stop - start + step - 1) div step = 0"
        by (intro div_pos_pos_trivial) auto
      then show ?thesis by simp
    next
      case False
      then have "(stop - start + step - 1) div step < 0"
        using 1(2) by (simp add: pos_imp_zdiv_neg_iff)
      then show ?thesis by simp
    qed
    with False 1(2) show ?thesis by (subst range_from.simps) simp
  qed
qed

lemma py_slice_window:
  "0 \<le> lo \<Longrightarrow> 0 \<le> w \<Longrightarrow> py_slice xs lo (lo + w) = take (nat w) (drop (nat lo) xs)"
proof (cases "lo < int (length xs)")
  case True
  assume a: "0 \<le> lo" "0 \<le> w"
  have "take (nat (min (lo + w) (int (length xs))) - nat lo) (drop (nat lo) xs)
        = take (min (nat w) (length (drop (nat lo) xs))) (drop (nat lo) xs)"
    using a True by (intro arg_cong2[where f=take]) (auto simp: min_def)
  also have "\<dots> = take (nat w) (drop (nat lo) xs)"
    by (simp add: min_def)
  finally show ?thesis using a True by (simp add: py_slice_def slice_bound_def Let_def min_def)
next
  case False
  assume a: "0 \<le> lo" "0 \<le> w"
  with False show ?thesis by (simp add: py_slice_def slice_bound_def Let_def min_def)
qed






section \<open>The strict validator\<close>

lemma length_unique_phases:
  "length (remdups (map frame_phase seq)) = card (frame_phase ` set seq)"
  by (simp add: length_remdups_card_conv)

lemma window_retained_few:
  "card (frame_phase ` set seq) \<le> 1 \<Longrightarrow> window_retained False p2i seq = Inr True"
  by (simp add: window_retained_def Let_def length_unique_phases)

lemma window_retained_many:
  "3 \<le> card (frame_phase ` set seq) \<Longrightarrow> window_retained False p2i seq = Inr False"
  by (simp add: window_retained_def Let_def length_unique_phases)

lemma two_phases:
  assumes "card (frame_phase ` set seq) = 2"
  obtains a b where "remdups (map frame_phase seq) = [a, b]" "a \<noteq> b"
    "frame_phase ` set seq = {a, b}"
proof -
  have "length (remdups (map frame_phase seq)) = 2"
    using assms by (simp add: length_unique_phases)
  then obtain a b where ab: "remdups (map frame_phase seq) = [a, b]"
    by (auto simp: length_Suc_conv numeral_2_eq_2)
  have "distinct (remdups (map frame_phase seq))" by simp
  then have "a \<noteq> b" unfolding ab by simp
  moreover have "set (remdups (map frame_phase seq)) = frame_phase ` set seq" by simp
  then have "frame_phase ` set seq = {a, b}" unfolding ab by auto
  ultimately show ?thesis using ab that by blast
qed

lemma window_retained_two:
  assumes "frame_phase ` set seq = {a, b}" "a \<noteq> b" "p2i a = Some i" "p2i b = Some j"
  shows "window_retained False p2i seq = Inr (Suc i = j \<or> Suc j = i)"
proof -
  have c: "card (frame_phase ` set seq) = 2" using assms by simp
  from two_phases[OF c] obtain x y where xy: "remdups (map frame_phase seq) = [x, y]" "x \<noteq> y"
    "frame_phase ` set seq = {x, y}" by blast
  then have "(x = a \<and> y = b) \<or> (x = b \<and> y = a)" using assms(1,2) by (auto simp: doubleton_eq_iff)
  then show ?thesis
    using xy(1) assms(3,4)
    by (auto simp: window_retained_def Let_def and_then_def dict_get_def)
qed

lemma spec_coherent_two:
  assumes "frame_phase ` set seq = {a, b}" "a \<noteq> b" "p2i a = Some i" "p2i b = Some j"
  shows "spec_coherent p2i seq \<longleftrightarrow> (Suc i = j \<or> Suc j = i)"
  using assms by (auto simp: spec_coherent_def Let_def)

lemma window_retained_known:
  assumes "frame_phase ` set seq \<subseteq> dom p2i"
  shows "window_retained False p2i seq = Inr (spec_coherent p2i seq)"
proof (cases "card (frame_phase ` set seq) \<le> 1")
  case True
  then have "spec_coherent p2i seq" by (simp add: spec_coherent_def Let_def)
  with True show ?thesis by (simp add: window_retained_few)
next
  case False
  show ?thesis
  proof (cases "card (frame_phase ` set seq) = 2")
    case True
    show ?thesis
    proof (rule two_phases[OF True])
      fix a b
      assume ab: "a \<noteq> b" "frame_phase ` set seq = {a, b}"
      have "a \<in> frame_phase ` set seq" "b \<in> frame_phase ` set seq"
        unfolding ab(2) by simp_all
      with assms have "a \<in> dom p2i" "b \<in> dom p2i" by blast+
      then obtain i j where ij: "p2i a = Some i" "p2i b = Some j" by (meson domD)
      show ?thesis
        unfolding window_retained_two[OF ab(2,1) ij] spec_coherent_two[OF ab(2,1) ij]
        by (rule refl)
    qed
  next
    case two: False
    with False have many: "3 \<le> card (frame_phase ` set seq)" by simp
    then have "\<not> spec_coherent p2i seq" by (simp add: spec_coherent_def Let_def)
    with many show ?thesis by (simp add: window_retained_many)
  qed
qed

lemma window_loop_strict:
  assumes "\<forall>start\<in>set starts. frame_phase ` set (py_slice frames start (start + w)) \<subseteq> dom p2i"
  shows "window_loop False p2i w frames starts seqs
     = Inr (seqs @ filter (spec_coherent p2i) (map (\<lambda>start. py_slice frames start (start + w)) starts))"
  using assms
  by (induction starts arbitrary: seqs) (simp_all add: window_retained_known and_then_def Let_def)

lemma window_retained_unknown:
  assumes "card (frame_phase ` set seq) = 2" "\<not> frame_phase ` set seq \<subseteq> dom p2i"
  shows "window_retained False p2i seq = Inl KeyError"
proof (rule two_phases[OF assms(1)])
  fix a b
  assume ab: "remdups (map frame_phase seq) = [a, b]" "frame_phase ` set seq = {a, b}"
  from assms(2) have "p2i a = None \<or> p2i b = None" unfolding ab(2) by auto
  then have "dict_get_all p2i [a, b] = Inl KeyError"
    by (cases "p2i a") (auto simp: and_then_def dict_get_def)
  then show ?thesis
    by (simp add: window_retained_def Let_def ab(1) and_then_def)
qed

lemma window_retained_strict:
  "window_retained False p2i seq
     = (if card (frame_phase ` set seq) = 2 \<and> \<not> frame_phase ` set seq \<subseteq> dom p2i
        then Inl KeyError else Inr (spec_coherent p2i seq))"
proof (cases "card (frame_phase ` set seq) = 2")
  case True
  then show ?thesis
    using window_retained_unknown[OF True, of p2i] window_retained_known[of seq p2i] by simp
next
  case False
  show ?thesis
  proof (cases "card (frame_phase ` set seq) \<le> 1")
    case True
    then have "spec_coherent p2i seq" by (simp add: spec_coherent_def Let_def)
    with True False show ?thesis by (simp add: window_retained_few)
  next
    case few: False
    with False have many: "3 \<le> card (frame_phase ` set seq)" by simp
    then have "\<not> spec_coherent p2i seq" by (simp add: spec_coherent_def Let_def)
    with many False show ?thesis by (simp add: window_retained_many)
  qed
qed

section \<open>The phase index mapping\<close>

lemma index_dict_fold:
  assumes step: "\<And>d i l. F d (i, l) = d(l \<mapsto> i)"
  shows "distinct xs \<Longrightarrow>
   foldl F d0 (enumerate n xs) p
     = (if p \<in> set xs then Some (n + length (takeWhile (\<lambda>q. q \<noteq> p) xs)) else d0 p)"
proof (induction xs arbitrary: d0 n)
  case Nil
  show ?case by simp
next
  case (Cons x xs)
  then have d: "distinct xs" and nx: "x \<notin> set xs" by simp_all
  have "foldl F d0 (enumerate n (x # xs)) p = foldl F (d0(x \<mapsto> n)) (enumerate (Suc n) xs) p"
    by (simp add: step)
  also have "\<dots> = (if p \<in> set xs then Some (Suc n + length (takeWhile (\<lambda>q. q \<noteq> p) xs))
                    else (d0(x \<mapsto> n)) p)"
    by (rule Cons.IH[OF d])
  also have "\<dots> = (if p \<in> set (x # xs)
                    then Some (n + length (takeWhile (\<lambda>q. q \<noteq> p) (x # xs))) else d0 p)"
    using nx by auto
  finally show ?case .
qed

lemma index_dict_distinct:
  "distinct labels \<Longrightarrow>
   index_dict labels p
     = (if p \<in> set labels then Some (length (takeWhile (\<lambda>q. q \<noteq> p) labels)) else None)"
  unfolding index_dict_def
  by (subst index_dict_fold) simp_all

lemma takeWhile_filter_before:
  "P p \<Longrightarrow> takeWhile (\<lambda>q. q \<noteq> p) (filter P xs) = filter P (takeWhile (\<lambda>q. q \<noteq> p) xs)"
  by (induction xs) auto

lemma distinct_chronological_phases: "distinct chronological_phases"
  by (simp add: chronological_phases_def)

lemma distinct_present_phases: "distinct (present_phases df)"
  by (simp add: present_phases_def distinct_chronological_phases)

lemma set_present_phases:
  "set (present_phases df) = set chronological_phases \<inter> Phase ` set df"
  by (auto simp: present_phases_def)

lemma index_dict_present:
  "index_dict (present_phases df) p
     = (if p \<in> set chronological_phases \<inter> Phase ` set df
        then Some (length (filter (\<lambda>q. q \<in> Phase ` set df)
                             (takeWhile (\<lambda>q. q \<noteq> p) chronological_phases)))
        else None)"
proof (cases "p \<in> set chronological_phases \<inter> Phase ` set df")
  case True
  then have "p \<in> Phase ` set df" by simp
  then have "takeWhile (\<lambda>q. q \<noteq> p) (present_phases df)
      = filter (\<lambda>q. q \<in> Phase ` set df) (takeWhile (\<lambda>q. q \<noteq> p) chronological_phases)"
    unfolding present_phases_def set_map by (rule takeWhile_filter_before)
  moreover have "p \<in> set (present_phases df)" using True by (simp only: set_present_phases)
  ultimately have "index_dict (present_phases df) p
      = Some (length (filter (\<lambda>q. q \<in> Phase ` set df)
                        (takeWhile (\<lambda>q. q \<noteq> p) chronological_phases)))"
    by (simp add: index_dict_distinct[OF distinct_present_phases])
  then show ?thesis using True by (simp only: if_True)
next
  case False
  then have "p \<notin> set (present_phases df)" by (simp only: set_present_phases not_False_eq_True)
  then have "index_dict (present_phases df) p = None"
    by (simp add: index_dict_distinct[OF distinct_present_phases])
  then show ?thesis using False by (simp only: if_False)
qed

lemma takeWhile_before_member:
  "p \<in> set xs \<Longrightarrow> length (takeWhile (\<lambda>q. q \<noteq> p) xs) < length xs
                   \<and> xs ! length (takeWhile (\<lambda>q. q \<noteq> p) xs) = p"
  by (induction xs) auto

lemma index_dict_nth:
  assumes "distinct labels" "index_dict labels p = Some i"
  shows "i < length labels \<and> labels ! i = p"
proof -
  from assms have p: "p \<in> set labels" and i: "i = length (takeWhile (\<lambda>q. q \<noteq> p) labels)"
    by (simp_all add: index_dict_distinct split: if_splits)
  show ?thesis unfolding i by (rule takeWhile_before_member[OF p])
qed

text \<open>
  Claim C9. The phase labels of a dataset are exactly the canonical phases that occur
  in the loaded rows, in canonical order and without repetition; the mapping has
  exactly these phases as keys, the index of a phase is the number of present phases
  that come before it in the canonical order, and so the indices are \<open>0, 1, \<dots>\<close> in
  the order of the labels.
\<close>

theorem phase_index_mapping:
  "set (present_phases df) = set chronological_phases \<inter> Phase ` set df
   \<and> subseq (present_phases df) chronological_phases
   \<and> distinct (present_phases df)
   \<and> dom (index_dict (present_phases df)) = set chronological_phases \<inter> Phase ` set df
   \<and> (\<forall>p \<in> set (present_phases df).
         index_dict (present_phases df) p
           = Some (length (filter (\<lambda>q. q \<in> Phase ` set df)
                             (takeWhile (\<lambda>q. q \<noteq> p) chronological_phases))))
   \<and> (\<forall>p i. index_dict (present_phases df) p = Some i
         \<longrightarrow> i < length (present_phases df) \<and> present_phases df ! i = p)"
proof -
  have sub: "subseq (present_phases df) chronological_phases"
    unfolding present_phases_def by (rule subseq_filter_left)
  have "dom (index_dict (present_phases df))
      = {p. p \<in> set chronological_phases \<inter> Phase ` set df}"
    unfolding dom_def index_dict_present by simp
  then have dm: "dom (index_dict (present_phases df)) = set chronological_phases \<inter> Phase ` set df"
    by blast
  have idx: "\<forall>p \<in> set (present_phases df).
         index_dict (present_phases df) p
           = Some (length (filter (\<lambda>q. q \<in> Phase ` set df)
                             (takeWhile (\<lambda>q. q \<noteq> p) chronological_phases)))"
    by (simp add: index_dict_present set_present_phases)
  have dense: "\<forall>p i. index_dict (present_phases df) p = Some i
         \<longrightarrow> i < length (present_phases df) \<and> present_phases df ! i = p"
    using index_dict_nth[OF distinct_present_phases] by blast
  show ?thesis
    by (intro conjI set_present_phases sub distinct_present_phases dm idx dense)
qed

lemma example_present_phases: "present_phases example_rows = [''t2'', ''t4'', ''tB'']"
  by (simp add: present_phases_def example_rows_def row_at_def chronological_phases_def)

theorem phase_index_mapping_witness:
  "present_phases example_rows = [''t2'', ''t4'', ''tB'']
   \<and> index_dict (present_phases example_rows) ''t4'' = Some 1
   \<and> index_dict (present_phases example_rows) ''tB'' = Some 2
   \<and> dom (index_dict (present_phases example_rows)) = {''t2'', ''t4'', ''tB''}"
proof -
  have phases: "Phase ` set example_rows = {''t4'', ''tB'', ''t2'', ''unknown''}"
    by (simp add: example_rows_def row_at_def) blast
  have before_t4: "filter (\<lambda>q. q \<in> Phase ` set example_rows)
                    (takeWhile (\<lambda>q. q \<noteq> ''t4'') chronological_phases) = [''t2'']"
    unfolding phases by (simp add: chronological_phases_def)
  have before_tB: "filter (\<lambda>q. q \<in> Phase ` set example_rows)
                    (takeWhile (\<lambda>q. q \<noteq> ''tB'') chronological_phases) = [''t2'', ''t4'']"
    unfolding phases by (simp add: chronological_phases_def)
  have present: "set chronological_phases \<inter> Phase ` set example_rows = {''t2'', ''t4'', ''tB''}"
    unfolding phases by (simp add: chronological_phases_def) blast
  from phase_index_mapping[of example_rows]
  have idx: "\<forall>p \<in> set (present_phases example_rows).
         index_dict (present_phases example_rows) p
           = Some (length (filter (\<lambda>q. q \<in> Phase ` set example_rows)
                             (takeWhile (\<lambda>q. q \<noteq> p) chronological_phases)))"
    and dm: "dom (index_dict (present_phases example_rows))
             = set chronological_phases \<inter> Phase ` set example_rows"
    by blast+
  have "index_dict (present_phases example_rows) ''t4'' = Some 1"
    using idx[rule_format, of "''t4''"] unfolding before_t4 by (simp add: example_present_phases)
  moreover have "index_dict (present_phases example_rows) ''tB'' = Some 2"
    using idx[rule_format, of "''tB''"] unfolding before_tB by (simp add: example_present_phases)
  ultimately show ?thesis
    using dm example_present_phases unfolding present by simp
qed

section \<open>Strict validation with the indices of the dataset\<close>

lemma dom_index_dict_present:
  "dom (index_dict (present_phases df)) = set chronological_phases \<inter> Phase ` set df"
proof -
  have "dom (index_dict (present_phases df))
      = {p. p \<in> set chronological_phases \<inter> Phase ` set df}"
    unfolding dom_def index_dict_present by simp
  then show ?thesis by blast
qed

lemma window_retained_dense_two:
  assumes "frame_phase ` set seq = {a, b}" "a \<noteq> b"
    "a \<in> set chronological_phases \<inter> Phase ` set df"
    "b \<in> set chronological_phases \<inter> Phase ` set df"
  shows "window_retained False (index_dict (present_phases df)) seq
     = Inr (Suc (length (filter (\<lambda>q. q \<in> Phase ` set df)
                          (takeWhile (\<lambda>q. q \<noteq> a) chronological_phases)))
              = length (filter (\<lambda>q. q \<in> Phase ` set df)
                          (takeWhile (\<lambda>q. q \<noteq> b) chronological_phases))
            \<or> Suc (length (filter (\<lambda>q. q \<in> Phase ` set df)
                          (takeWhile (\<lambda>q. q \<noteq> b) chronological_phases)))
              = length (filter (\<lambda>q. q \<in> Phase ` set df)
                          (takeWhile (\<lambda>q. q \<noteq> a) chronological_phases)))"
proof -
  have ia: "index_dict (present_phases df) a
      = Some (length (filter (\<lambda>q. q \<in> Phase ` set df)
                        (takeWhile (\<lambda>q. q \<noteq> a) chronological_phases)))"
    using assms(3) by (simp only: index_dict_present if_True)
  have ib: "index_dict (present_phases df) b
      = Some (length (filter (\<lambda>q. q \<in> Phase ` set df)
                        (takeWhile (\<lambda>q. q \<noteq> b) chronological_phases)))"
    using assms(4) by (simp only: index_dict_present if_True)
  show ?thesis by (rule window_retained_two[OF assms(1,2) ia ib])
qed

text \<open>
  Claim C3, amended. The indices that strict mode compares are those of the dataset's
  own mapping, which numbers only the phases that occur in the loaded rows; they are
  not positions in the canonical list. With that mapping: a window is retained exactly
  when it shows at most one phase, or exactly two phases whose indices differ by one,
  that is, two present canonical phases with no phase occurring in the rows between
  them in the canonical order. A window of three or more distinct phases is rejected
  whatever the indices. A window of exactly two phases one of which is not a present
  canonical phase raises KeyError. The loop over the offsets keeps, in order, exactly
  the coherent candidates.
\<close>

theorem strict_validator_dense:
  "window_retained False (index_dict (present_phases df)) seq
     = (if card (frame_phase ` set seq) = 2
           \<and> \<not> frame_phase ` set seq \<subseteq> set chronological_phases \<inter> Phase ` set df
        then Inl KeyError
        else Inr (spec_coherent (index_dict (present_phases df)) seq))
   \<and> (card (frame_phase ` set seq) \<le> 1
        \<longrightarrow> window_retained False (index_dict (present_phases df)) seq = Inr True)
   \<and> (3 \<le> card (frame_phase ` set seq)
        \<longrightarrow> window_retained False (index_dict (present_phases df)) seq = Inr False)
   \<and> (\<forall>a b. frame_phase ` set seq = {a, b} \<and> a \<noteq> b
          \<and> a \<in> set chronological_phases \<inter> Phase ` set df
          \<and> b \<in> set chronological_phases \<inter> Phase ` set df
        \<longrightarrow> window_retained False (index_dict (present_phases df)) seq
              = Inr (Suc (length (filter (\<lambda>q. q \<in> Phase ` set df)
                                   (takeWhile (\<lambda>q. q \<noteq> a) chronological_phases)))
                       = length (filter (\<lambda>q. q \<in> Phase ` set df)
                                   (takeWhile (\<lambda>q. q \<noteq> b) chronological_phases))
                     \<or> Suc (length (filter (\<lambda>q. q \<in> Phase ` set df)
                                   (takeWhile (\<lambda>q. q \<noteq> b) chronological_phases)))
                       = length (filter (\<lambda>q. q \<in> Phase ` set df)
                                   (takeWhile (\<lambda>q. q \<noteq> a) chronological_phases))))
   \<and> ((\<forall>start\<in>set starts.
          frame_phase ` set (py_slice frames start (start + w))
            \<subseteq> set chronological_phases \<inter> Phase ` set df)
        \<longrightarrow> window_loop False (index_dict (present_phases df)) w frames starts seqs
              = Inr (seqs @ filter (spec_coherent (index_dict (present_phases df)))
                              (map (\<lambda>start. py_slice frames start (start + w)) starts)))"
proof -
  have a: "window_retained False (index_dict (present_phases df)) seq
     = (if card (frame_phase ` set seq) = 2
           \<and> \<not> frame_phase ` set seq \<subseteq> set chronological_phases \<inter> Phase ` set df
        then Inl KeyError
        else Inr (spec_coherent (index_dict (present_phases df)) seq))"
    using window_retained_strict[of "index_dict (present_phases df)" seq]
    unfolding dom_index_dict_present .
  have b: "card (frame_phase ` set seq) \<le> 1
        \<longrightarrow> window_retained False (index_dict (present_phases df)) seq = Inr True"
    using window_retained_few by blast
  have c: "3 \<le> card (frame_phase ` set seq)
        \<longrightarrow> window_retained False (index_dict (present_phases df)) seq = Inr False"
    using window_retained_many by blast
  have d: "\<forall>a b. frame_phase ` set seq = {a, b} \<and> a \<noteq> b
          \<and> a \<in> set chronological_phases \<inter> Phase ` set df
          \<and> b \<in> set chronological_phases \<inter> Phase ` set df
        \<longrightarrow> window_retained False (index_dict (present_phases df)) seq
              = Inr (Suc (length (filter (\<lambda>q. q \<in> Phase ` set df)
                                   (takeWhile (\<lambda>q. q \<noteq> a) chronological_phases)))
                       = length (filter (\<lambda>q. q \<in> Phase ` set df)
                                   (takeWhile (\<lambda>q. q \<noteq> b) chronological_phases))
                     \<or> Suc (length (filter (\<lambda>q. q \<in> Phase ` set df)
                                   (takeWhile (\<lambda>q. q \<noteq> b) chronological_phases)))
                       = length (filter (\<lambda>q. q \<in> Phase ` set df)
                                   (takeWhile (\<lambda>q. q \<noteq> a) chronological_phases)))"
  proof (intro allI impI, elim conjE)
    fix a b
    assume "frame_phase ` set seq = {a, b}" "a \<noteq> b"
      "a \<in> set chronological_phases \<inter> Phase ` set df"
      "b \<in> set chronological_phases \<inter> Phase ` set df"
    then show "window_retained False (index_dict (present_phases df)) seq
              = Inr (Suc (length (filter (\<lambda>q. q \<in> Phase ` set df)
                                   (takeWhile (\<lambda>q. q \<noteq> a) chronological_phases)))
                       = length (filter (\<lambda>q. q \<in> Phase ` set df)
                                   (takeWhile (\<lambda>q. q \<noteq> b) chronological_phases))
                     \<or> Suc (length (filter (\<lambda>q. q \<in> Phase ` set df)
                                   (takeWhile (\<lambda>q. q \<noteq> b) chronological_phases)))
                       = length (filter (\<lambda>q. q \<in> Phase ` set df)
                                   (takeWhile (\<lambda>q. q \<noteq> a) chronological_phases)))"
      by (rule window_retained_dense_two)
  qed
  have e: "(\<forall>start\<in>set starts.
          frame_phase ` set (py_slice frames start (start + w))
            \<subseteq> set chronological_phases \<inter> Phase ` set df)
        \<longrightarrow> window_loop False (index_dict (present_phases df)) w frames starts seqs
              = Inr (seqs @ filter (spec_coherent (index_dict (present_phases df)))
                              (map (\<lambda>start. py_slice frames start (start + w)) starts))"
    using window_loop_strict[of starts frames w "index_dict (present_phases df)" seqs]
    unfolding dom_index_dict_present by blast
  from a b c d e show ?thesis by (intro conjI)
qed

lemma example_chronology_index:
  "chronology_index ''t2'' = Some 3" "chronology_index ''t4'' = Some 5"
  unfolding chronology_index_def index_dict_distinct[OF distinct_chronological_phases]
  by (simp_all add: chronological_phases_def)

lemma skip_rows_phases: "Phase ` set skip_rows = {''t2'', ''t4''}"
  by (auto simp: skip_rows_def row_at_def)

lemma example_rows_phases: "Phase ` set example_rows = {''t4'', ''tB'', ''t2'', ''unknown''}"
  by (simp add: example_rows_def row_at_def) blast

text \<open>
  The claim as stated compares chronology indices. In a dataset whose rows show only
  t2 and t4, a window of a t2 frame and a t4 frame is retained in strict mode, although
  the chronology indices of the two phases are 3 and 5.
\<close>

theorem strict_validator_counterexample:
  "chronology_index ''t2'' = Some 3 \<and> chronology_index ''t4'' = Some 5
   \<and> \<not> spec_coherent chronology_index [frame_at ''2'' ''t2'', frame_at ''3'' ''t4'']
   \<and> window_retained False (index_dict (present_phases skip_rows))
        [frame_at ''2'' ''t2'', frame_at ''3'' ''t4''] = Inr True"
proof -
  have ph: "frame_phase ` set [frame_at ''2'' ''t2'', frame_at ''3'' ''t4''] = {''t2'', ''t4''}"
    by (simp add: frame_at_def)
  have "\<not> spec_coherent chronology_index [frame_at ''2'' ''t2'', frame_at ''3'' ''t4'']"
    unfolding spec_coherent_def Let_def ph by (simp add: example_chronology_index)
  moreover have "window_retained False (index_dict (present_phases skip_rows))
        [frame_at ''2'' ''t2'', frame_at ''3'' ''t4''] = Inr True"
    by (subst window_retained_dense_two[OF ph])
       (simp_all add: skip_rows_phases chronological_phases_def)
  ultimately show ?thesis by (simp add: example_chronology_index)
qed

theorem strict_validator_dense_witness:
  "window_retained False (index_dict (present_phases example_rows))
      [frame_at ''1'' ''t2'', frame_at ''2'' ''t4''] = Inr True
   \<and> window_retained False (index_dict (present_phases example_rows))
      [frame_at ''1'' ''t2'', frame_at ''2'' ''tB''] = Inr False
   \<and> window_retained False (index_dict (present_phases example_rows))
      [frame_at ''1'' ''t2'', frame_at ''2'' ''unknown''] = Inl KeyError
   \<and> window_retained False (index_dict (present_phases example_rows))
      [frame_at ''1'' ''t2'', frame_at ''2'' ''t4'', frame_at ''3'' ''tB''] = Inr False"
proof -
  have p24: "frame_phase ` set [frame_at ''1'' ''t2'', frame_at ''2'' ''t4''] = {''t2'', ''t4''}"
    and p2B: "frame_phase ` set [frame_at ''1'' ''t2'', frame_at ''2'' ''tB''] = {''t2'', ''tB''}"
    and p2u: "frame_phase ` set [frame_at ''1'' ''t2'', frame_at ''2'' ''unknown'']
                = {''t2'', ''unknown''}"
    and p3: "frame_phase ` set [frame_at ''1'' ''t2'', frame_at ''2'' ''t4'', frame_at ''3'' ''tB'']
                = {''t2'', ''t4'', ''tB''}"
    by (simp_all add: frame_at_def)
  have n2: "filter (\<lambda>q. q \<in> Phase ` set example_rows)
              (takeWhile (\<lambda>q. q \<noteq> ''t2'') chronological_phases) = []"
    and n4: "filter (\<lambda>q. q \<in> Phase ` set example_rows)
              (takeWhile (\<lambda>q. q \<noteq> ''t4'') chronological_phases) = [''t2'']"
    and nB: "filter (\<lambda>q. q \<in> Phase ` set example_rows)
              (takeWhile (\<lambda>q. q \<noteq> ''tB'') chronological_phases) = [''t2'', ''t4'']"
    unfolding example_rows_phases by (simp_all add: chronological_phases_def)
  have present: "set chronological_phases \<inter> Phase ` set example_rows = {''t2'', ''t4'', ''tB''}"
    unfolding example_rows_phases by (simp add: chronological_phases_def) blast
  have a: "window_retained False (index_dict (present_phases example_rows))
      [frame_at ''1'' ''t2'', frame_at ''2'' ''t4''] = Inr True"
    using strict_validator_dense[where df = example_rows
        and seq = "[frame_at ''1'' ''t2'', frame_at ''2'' ''t4'']", unfolded present,
        THEN conjunct2, THEN conjunct2, THEN conjunct2, THEN conjunct1, rule_format,
        of "''t2''" "''t4''"] p24
    by (simp add: n2 n4)
  have b: "window_retained False (index_dict (present_phases example_rows))
      [frame_at ''1'' ''t2'', frame_at ''2'' ''tB''] = Inr False"
    using strict_validator_dense[where df = example_rows
        and seq = "[frame_at ''1'' ''t2'', frame_at ''2'' ''tB'']", unfolded present,
        THEN conjunct2, THEN conjunct2, THEN conjunct2, THEN conjunct1, rule_format,
        of "''t2''" "''tB''"] p2B
    by (simp add: n2 nB)
  have c: "window_retained False (index_dict (present_phases example_rows))
      [frame_at ''1'' ''t2'', frame_at ''2'' ''unknown''] = Inl KeyError"
    using strict_validator_dense[where df = example_rows
        and seq = "[frame_at ''1'' ''t2'', frame_at ''2'' ''unknown'']", unfolded present,
        THEN conjunct1]
    unfolding p2u by simp
  have d: "window_retained False (index_dict (present_phases example_rows))
      [frame_at ''1'' ''t2'', frame_at ''2'' ''t4'', frame_at ''3'' ''tB''] = Inr False"
    using strict_validator_dense[where df = example_rows
        and seq = "[frame_at ''1'' ''t2'', frame_at ''2'' ''t4'', frame_at ''3'' ''tB'']",
        THEN conjunct2, THEN conjunct2, THEN conjunct1]
    unfolding p3 by simp
  from a b c d show ?thesis by (intro conjI)
qed

section \<open>The transition flag\<close>

lemma and_then_Inr: "and_then r f = Inr y \<longleftrightarrow> (\<exists>v. r = Inr v \<and> f v = Inr y)"
  by (cases r) (simp_all add: and_then_def)

lemma dict_get_Inr: "dict_get d k = Inr v \<longleftrightarrow> d k = Some v"
  by (simp add: dict_get_def split: option.splits)

lemma dict_get_all_Inr:
  "dict_get_all d ks = Inr vs \<Longrightarrow> map d ks = map Some vs"
  by (induction ks arbitrary: vs) (auto simp: and_then_Inr dict_get_Inr)

lemma py_index_first: "py_index xs 0 = (if xs = [] then Inl IndexError else Inr (hd xs))"
  by (cases xs) (simp_all add: py_index_def)

lemma py_index_last: "py_index xs (- 1) = (if xs = [] then Inl IndexError else Inr (last xs))"
proof (cases "xs = []")
  case True
  then show ?thesis by (simp add: py_index_def)
next
  case False
  then have "nat (int (length xs) + - 1) = length xs - 1" "- int (length xs) \<le> - 1"
    by (simp_all add: Suc_leI)
  with False show ?thesis by (simp add: py_index_def last_conv_nth)
qed

lemma load_frames_labels:
  "load_frames load p2i seq = Inr (Some (images_seq, labels, identifiers)) \<Longrightarrow>
     dict_get_all p2i (map frame_phase seq) = Inr labels
     \<and> length images_seq = length seq \<and> length identifiers = length seq"
proof (induction seq arbitrary: images_seq labels identifiers)
  case Nil
  then show ?case by simp
next
  case (Cons f fs)
  from Cons.prems obtain img label r where
    a: "load (frame_path f) = Some img" "p2i (frame_phase f) = Some label"
       "load_frames load p2i fs = Inr r"
       "map_option (\<lambda>(ims, ls, ids). (img # ims, label # ls, frame_identifier f # ids)) r
          = Some (images_seq, labels, identifiers)"
    by (auto simp: and_then_Inr dict_get_Inr split: option.splits)
  from a(4) obtain ims ls ids where r: "r = Some (ims, ls, ids)" "images_seq = img # ims"
    "labels = label # ls" "identifiers = frame_identifier f # ids"
    by (cases r) auto
  from Cons.IH[OF a(3)[unfolded r(1)]] a(2) r show ?case
    by (simp add: and_then_def dict_get_def)
qed

lemma dict_get_all_ends:
  assumes "dict_get_all d ks = Inr vs" "ks \<noteq> []"
  shows "vs \<noteq> [] \<and> d (hd ks) = Some (hd vs) \<and> d (last ks) = Some (last vs)"
proof -
  from dict_get_all_Inr[OF assms(1)] have m: "map d ks = map Some vs" .
  then have "length ks = length vs" by (metis length_map)
  with assms(2) have ne: "vs \<noteq> []" by auto
  have "hd (map d ks) = hd (map Some vs)" "last (map d ks) = last (map Some vs)"
    using m by simp_all
  with ne assms(2) show ?thesis by (simp add: hd_map last_map)
qed

lemma same_end_labels_Inr:
  assumes "dict_get_all p2i (map frame_phase seq) = Inr labels" "seq \<noteq> []"
  shows "same_end_labels p2i seq = Inr (hd labels = last labels)"
    and "p2i (frame_phase (hd seq)) = Some (hd labels)"
    and "p2i (frame_phase (last seq)) = Some (last labels)"
proof -
  from assms(2) have ne: "map frame_phase seq \<noteq> []" by simp
  from dict_get_all_ends[OF assms(1) ne]
  have l: "labels \<noteq> []" "p2i (hd (map frame_phase seq)) = Some (hd labels)"
    "p2i (last (map frame_phase seq)) = Some (last labels)" by simp_all
  show "same_end_labels p2i seq = Inr (hd labels = last labels)"
    using l(1) by (simp add: same_end_labels_def assms(1) and_then_def py_index_first py_index_last)
  show "p2i (frame_phase (hd seq)) = Some (hd labels)"
    using l(2) assms(2) by (simp add: hd_map)
  show "p2i (frame_phase (last seq)) = Some (last labels)"
    using l(3) assms(2) by (simp add: last_map)
qed

text \<open>
  Claim C6. Whenever \<^verbatim>\<open>__getitem__\<close> returns a sample, its flag is 0 exactly when the
  returned first and last phase indices are equal, and 1 otherwise; the two indices are
  the vocabulary indices of the phases of the window's first and last frame, and the
  flag is the one by which \<^verbatim>\<open>_balance_flags\<close> and the flag report sort the window.
\<close>

theorem transition_flag_rule:
  assumes "getitem load gray self idx = Inr (Some (images, flag, first_index, last_index))"
  shows "(flag = 0 \<longleftrightarrow> first_index = last_index) \<and> (flag = 0 \<or> flag = 1)
       \<and> (\<exists>sequence. py_index (video_sequences self) idx = Inr sequence \<and> sequence \<noteq> []
            \<and> phase_to_index self (frame_phase (hd sequence)) = Some first_index
            \<and> phase_to_index self (frame_phase (last sequence)) = Some last_index
            \<and> same_end_labels (phase_to_index self) sequence = Inr (flag = 0))"
proof -
  from assms obtain sequence loaded where
    s: "py_index (video_sequences self) idx = Inr sequence"
    and l: "load_frames load (phase_to_index self) sequence = Inr loaded"
    and r: "(case loaded of
           None \<Rightarrow> Inr None
         | Some (images_seq, labels, identifiers) \<Rightarrow>
             and_then
               (if mode self = ''video'' then torch_stack images_seq
                else if mode self = ''image_seq'' then torch_stack (map gray images_seq)
                else Inl ValueError)
               (\<lambda>images_seq.
                  if int (length identifiers) \<noteq> window_size self then Inl ValueError
                  else
                    and_then (py_index sequence 0) (\<lambda>f0.
                      and_then (dict_get (phase_to_index self) (frame_phase f0)) (\<lambda>first_frame_phase.
                        and_then (py_index sequence (- 1)) (\<lambda>f1.
                          and_then (dict_get (phase_to_index self) (frame_phase f1)) (\<lambda>last_frame_phase.
                            and_then (py_index labels 0) (\<lambda>l0.
                              and_then (py_index labels (- 1)) (\<lambda>l1.
                                let consistency_flag = (if l0 = l1 then 0 else 1)
                                in Inr (Some (images_seq, consistency_flag,
                                              first_frame_phase, last_frame_phase))))))))))
        = Inr (Some (images, flag, first_index, last_index))"
    unfolding getitem_def by (force simp: and_then_Inr)
  from r obtain images_seq labels identifiers where
    ld: "loaded = Some (images_seq, labels, identifiers)"
    by (cases loaded) auto
  from r[unfolded ld] have
    ne: "sequence \<noteq> []" and lne: "labels \<noteq> []"
    and fi: "phase_to_index self (frame_phase (hd sequence)) = Some first_index"
    and la: "phase_to_index self (frame_phase (last sequence)) = Some last_index"
    and fl: "flag = (if hd labels = last labels then 0 else 1)"
    by (auto simp: and_then_Inr dict_get_Inr py_index_first py_index_last Let_def
             split: if_splits)
  from load_frames_labels[OF l[unfolded ld]]
  have g: "dict_get_all (phase_to_index self) (map frame_phase sequence) = Inr labels" by simp
  note e = same_end_labels_Inr[OF g ne]
  from e(2) fi have f: "first_index = hd labels" by simp
  from e(3) la have t: "last_index = last labels" by simp
  have "same_end_labels (phase_to_index self) sequence = Inr (flag = 0)"
    unfolding e(1) fl by simp
  with s ne fi la show ?thesis unfolding f t fl by auto
qed

lemma example_getitem:
  "getitem Some id example_dataset 0 = Inr (Some ([''img/1'', ''img/2''], 1, 0, 1))"
  "getitem Some id example_dataset 1 = Inr (Some ([''img/3'', ''img/4''], 0, 2, 2))"
  by (simp_all add: getitem_def example_dataset_def and_then_def dict_get_def py_index_def
        torch_stack_def frame_at_def example_index_def)

theorem transition_flag_rule_witness:
  "getitem Some id example_dataset 0 = Inr (Some ([''img/1'', ''img/2''], 1, 0, 1))
   \<and> same_end_labels example_index [frame_at ''1'' ''t2'', frame_at ''2'' ''t3''] = Inr False
   \<and> getitem Some id example_dataset 1 = Inr (Some ([''img/3'', ''img/4''], 0, 2, 2))
   \<and> same_end_labels example_index [frame_at ''3'' ''t4'', frame_at ''4'' ''t4''] = Inr True"
proof -
  have i0: "py_index (video_sequences example_dataset) 0 = Inr sequence
      \<longleftrightarrow> sequence = [frame_at ''1'' ''t2'', frame_at ''2'' ''t3'']" for sequence
    by (auto simp: py_index_def example_dataset_def)
  have i1: "py_index (video_sequences example_dataset) 1 = Inr sequence
      \<longleftrightarrow> sequence = [frame_at ''3'' ''t4'', frame_at ''4'' ''t4'']" for sequence
    by (auto simp: py_index_def example_dataset_def)
  have p: "phase_to_index example_dataset = example_index"
    by (simp add: example_dataset_def)
  from transition_flag_rule[OF example_getitem(1)]
  have "same_end_labels example_index [frame_at ''1'' ''t2'', frame_at ''2'' ''t3''] = Inr False"
    unfolding i0 p by simp
  moreover from transition_flag_rule[OF example_getitem(2)]
  have "same_end_labels example_index [frame_at ''3'' ''t4'', frame_at ''4'' ''t4''] = Inr True"
    unfolding i1 p by simp
  ultimately show ?thesis using example_getitem by simp
qed

section \<open>The ordinal of a frame\<close>




























section \<open>Online windowing\<close>

lemma range_from_unit: "range_from 0 n 1 = map int [0..<nat n]"
  using range_from_pos[of 1 0 n] by simp

lemma random_predictions_length:
  "length (fst (random_predictions R g starts)) = length starts"
  by (induction starts arbitrary: g) (simp_all add: case_prod_beta)

lemma window_predictions_Some:
  "window_predictions E model md frame_count images_tensor starts = Some predictions
     \<longleftrightarrow> (\<forall>i\<in>set starts.
            model_predict E model md (py_slice images_tensor i (i + frame_count)) \<noteq> None)
         \<and> predictions
             = map (\<lambda>i. the (model_predict E model md (py_slice images_tensor i (i + frame_count))))
                 starts"
  by (induction starts arbitrary: predictions) (auto split: option.splits)

lemma decode_images_all:
  "\<forall>b\<in>set images. decode_image E b \<noteq> None \<Longrightarrow>
   decode_images E k images = Inr (map (\<lambda>b. the (decode_image E b)) images)"
  by (induction images arbitrary: k) auto

lemma decode_images_Inr:
  "decode_images E k images = Inr processed \<Longrightarrow>
   (\<forall>b\<in>set images. decode_image E b \<noteq> None)
   \<and> processed = map (\<lambda>b. the (decode_image E b)) images"
proof (induction images arbitrary: k processed)
  case Nil
  then show ?case by simp
next
  case (Cons b images)
  from Cons.prems obtain t rest where
    t: "decode_image E b = Some t" and r: "decode_images E (Suc k) images = Inr rest"
    and p: "processed = t # rest"
    by (auto split: option.splits sum.splits)
  from Cons.IH[OF r] t p show ?case by simp
qed

lemma torch_stack_Inr: "torch_stack xs = Inr ys \<longleftrightarrow> xs \<noteq> [] \<and> ys = xs"
  by (auto simp: torch_stack_def)

lemma predict_with_success:
  assumes "predict_with E R g images frame_count model_path md = (Predictions predictions r, g')"
  shows "length predictions = nat (int (length images) - frame_count + 1)"
proof (cases "path_exists E model_path")
  case False
  with assms have "predictions
      = fst (random_predictions R g (range_from 0 (int (length images) - frame_count + 1) 1))"
    by (auto simp: predict_with_def case_prod_beta)
  then show ?thesis by (simp add: random_predictions_length range_from_unit)
next
  case True
  show ?thesis
  proof (cases "decode_images E 0 images")
    case (Inl m)
    with assms True show ?thesis by (simp add: predict_with_def)
  next
    case d: (Inr processed)
    show ?thesis
    proof (cases "stack_images E md processed")
      case (Inl e)
      with assms True d show ?thesis by (simp add: predict_with_def)
    next
      case st: (Inr tensor)
      show ?thesis
      proof (cases "torch_load E model_path")
        case None
        with assms True d st show ?thesis by (simp add: predict_with_def)
      next
        case (Some model)
        show ?thesis
        proof (cases "window_predictions E model md frame_count tensor
                        (range_from 0 (int (length processed) - frame_count + 1) 1)")
          case None
          with assms True d st Some show ?thesis by (simp add: predict_with_def)
        next
          case w: (Some ps)
          with assms True d st Some have "ps = predictions" by (simp add: predict_with_def)
          moreover from decode_images_Inr[OF d] have "length processed = length images" by simp
          ultimately show ?thesis
            using w by (simp add: window_predictions_Some range_from_unit)
        qed
      qed
    qed
  qed
qed

lemma predictTransitions_success:
  assumes "predictTransitions E R g images frame_count = (Predictions predictions r, g')"
  shows "(frame_count = 8 \<or> frame_count = 32)
         \<and> length predictions = nat (int (length images) - frame_count + 1)"
proof (cases "model_choice frame_count")
  case None
  with assms show ?thesis by (simp add: predictTransitions_def)
next
  case (Some c)
  obtain model_path md where c: "c = (model_path, md)" by (cases c)
  from Some have "frame_count = 8 \<or> frame_count = 32"
    by (simp add: model_choice_def split: if_splits)
  moreover from assms Some c
  have "predict_with E R g images frame_count model_path md = (Predictions predictions r, g')"
    by (simp add: predictTransitions_def)
  then have "length predictions = nat (int (length images) - frame_count + 1)"
    by (rule predict_with_success)
  ultimately show ?thesis by (rule conjI)
qed

lemma predict_with_random:
  assumes "\<not> path_exists E model_path"
  shows "\<exists>predictions g'.
           predict_with E R g images frame_count model_path md = (Predictions predictions True, g')"
  using assms by (simp add: predict_with_def case_prod_beta)

lemma predict_with_model:
  assumes "path_exists E model_path" "images \<noteq> []"
    "\<forall>b\<in>set images. decode_image E b \<noteq> None"
    "torch_load E model_path = Some model"
    "0 \<le> frame_count"
    and tensor: "tensor = (if md = ''video'' then map (\<lambda>b. the (decode_image E b)) images
                    else map (\<lambda>b. channel_mean E (the (decode_image E b))) images)"
    and ok: "\<forall>i < nat (int (length images) - frame_count + 1).
           model_predict E model md (take (nat frame_count) (drop i tensor)) \<noteq> None"
  shows "predict_with E R g images frame_count model_path md
     = (Predictions
          (map (\<lambda>i. the (model_predict E model md (take (nat frame_count) (drop i tensor))))
             [0..<nat (int (length images) - frame_count + 1)])
          False, g)"
proof -
  let ?processed = "map (\<lambda>b. the (decode_image E b)) images"
  have d: "decode_images E 0 images = Inr ?processed"
    using assms(3) by (rule decode_images_all)
  have st: "stack_images E md ?processed = Inr tensor"
    using assms(2) by (simp add: stack_images_def tensor torch_stack_def comp_def)
  have sl: "py_slice tensor (int i) (int i + frame_count) = take (nat frame_count) (drop i tensor)" for i
    using py_slice_window[of "int i" frame_count tensor] assms(5) by simp
  have w: "window_predictions E model md frame_count tensor
             (range_from 0 (int (length images) - frame_count + 1) 1)
         = Some (map (\<lambda>i. the (model_predict E model md (take (nat frame_count) (drop i tensor))))
                   [0..<nat (int (length images) - frame_count + 1)])"
    using ok by (simp add: window_predictions_Some range_from_unit sl comp_def)
  show ?thesis
    unfolding predict_with_def using assms(1,4) by (simp add: d st w)
qed

lemma model_choice_Some:
  "model_choice frame_count = Some (model_path, md) \<Longrightarrow> frame_count = 8 \<or> frame_count = 32"
  by (simp add: model_choice_def split: if_splits)

text \<open>
  Claim C2, amended. The claim as stated fails for every frame count other than 8 and
  32: the call ends with the message of an unsupported frame count and predicts
  nothing. For the two supported frame counts and \<open>N \<ge> frame_count\<close> images: every
  successful call returns exactly \<open>N - frame_count + 1\<close> predictions; when the model
  file is missing the call always succeeds, with that many random predictions and the
  random flag set; when the model file is there, every image decodes, the model loads
  and predicts every window, the predictions are the model's on the windows
  \<open>tensor[i : i + frame_count]\<close> for \<open>i = 0, \<dots>, N - frame_count\<close>, in that order, window
  \<open>i\<close> holding the frames \<open>i\<close> to \<open>i + frame_count - 1\<close>.
\<close>

theorem online_windowing:
  assumes "frame_count \<le> int (length images)"
  shows
    "(\<forall>predictions is_random g'.
        predictTransitions E R g images frame_count = (Predictions predictions is_random, g')
        \<longrightarrow> (frame_count = 8 \<or> frame_count = 32)
            \<and> int (length predictions) = int (length images) - frame_count + 1)
     \<and> (\<forall>model_path md.
          model_choice frame_count = Some (model_path, md) \<and> \<not> path_exists E model_path
          \<longrightarrow> (\<exists>predictions g'.
                 predictTransitions E R g images frame_count = (Predictions predictions True, g')
                 \<and> int (length predictions) = int (length images) - frame_count + 1))
     \<and> (\<forall>model_path md model tensor.
          model_choice frame_count = Some (model_path, md) \<and> path_exists E model_path
          \<and> (\<forall>b\<in>set images. decode_image E b \<noteq> None)
          \<and> torch_load E model_path = Some model
          \<and> tensor = (if md = ''video'' then map (\<lambda>b. the (decode_image E b)) images
                       else map (\<lambda>b. channel_mean E (the (decode_image E b))) images)
          \<and> (\<forall>i < nat (int (length images) - frame_count + 1).
                 model_predict E model md (take (nat frame_count) (drop i tensor)) \<noteq> None)
          \<longrightarrow> predictTransitions E R g images frame_count
                = (Predictions
                     (map (\<lambda>i. the (model_predict E model md (take (nat frame_count) (drop i tensor))))
                        [0..<nat (int (length images) - frame_count + 1)])
                     False, g)
              \<and> (\<forall>i j. i < nat (int (length images) - frame_count + 1) \<and> j < nat frame_count
                    \<longrightarrow> take (nat frame_count) (drop i tensor) ! j = tensor ! (i + j)))"
proof -
  have n: "int (nat (int (length images) - frame_count + 1)) = int (length images) - frame_count + 1"
    using assms by simp
  have a: "\<forall>predictions is_random g'.
        predictTransitions E R g images frame_count = (Predictions predictions is_random, g')
        \<longrightarrow> (frame_count = 8 \<or> frame_count = 32)
            \<and> int (length predictions) = int (length images) - frame_count + 1"
  proof (intro allI impI)
    fix predictions is_random g'
    assume "predictTransitions E R g images frame_count = (Predictions predictions is_random, g')"
    from predictTransitions_success[OF this] n
    show "(frame_count = 8 \<or> frame_count = 32)
            \<and> int (length predictions) = int (length images) - frame_count + 1"
      by simp
  qed
  have b: "\<forall>model_path md.
          model_choice frame_count = Some (model_path, md) \<and> \<not> path_exists E model_path
          \<longrightarrow> (\<exists>predictions g'.
                 predictTransitions E R g images frame_count = (Predictions predictions True, g')
                 \<and> int (length predictions) = int (length images) - frame_count + 1)"
  proof (intro allI impI)
    fix model_path md
    assume h: "model_choice frame_count = Some (model_path, md) \<and> \<not> path_exists E model_path"
    then have nx: "\<not> path_exists E model_path" by simp
    from predict_with_random[OF nx, of R g images frame_count md] obtain predictions g' where
      "predict_with E R g images frame_count model_path md = (Predictions predictions True, g')"
      by (elim exE)
    with h have p: "predictTransitions E R g images frame_count = (Predictions predictions True, g')"
      by (simp add: predictTransitions_def)
    with a show "\<exists>predictions g'.
                 predictTransitions E R g images frame_count = (Predictions predictions True, g')
                 \<and> int (length predictions) = int (length images) - frame_count + 1"
      by blast
  qed
  have c: "\<forall>model_path md model tensor.
          model_choice frame_count = Some (model_path, md) \<and> path_exists E model_path
          \<and> (\<forall>b\<in>set images. decode_image E b \<noteq> None)
          \<and> torch_load E model_path = Some model
          \<and> tensor = (if md = ''video'' then map (\<lambda>b. the (decode_image E b)) images
                       else map (\<lambda>b. channel_mean E (the (decode_image E b))) images)
          \<and> (\<forall>i < nat (int (length images) - frame_count + 1).
                 model_predict E model md (take (nat frame_count) (drop i tensor)) \<noteq> None)
          \<longrightarrow> predictTransitions E R g images frame_count
                = (Predictions
                     (map (\<lambda>i. the (model_predict E model md (take (nat frame_count) (drop i tensor))))
                        [0..<nat (int (length images) - frame_count + 1)])
                     False, g)
              \<and> (\<forall>i j. i < nat (int (length images) - frame_count + 1) \<and> j < nat frame_count
                    \<longrightarrow> take (nat frame_count) (drop i tensor) ! j = tensor ! (i + j))"
  proof (intro allI impI, elim conjE)
    fix model_path md model tensor
    assume mc: "model_choice frame_count = Some (model_path, md)"
      and ex: "path_exists E model_path"
      and dec: "\<forall>b\<in>set images. decode_image E b \<noteq> None"
      and ld: "torch_load E model_path = Some model"
      and t: "tensor = (if md = ''video'' then map (\<lambda>b. the (decode_image E b)) images
                       else map (\<lambda>b. channel_mean E (the (decode_image E b))) images)"
      and ok: "\<forall>i < nat (int (length images) - frame_count + 1).
                 model_predict E model md (take (nat frame_count) (drop i tensor)) \<noteq> None"
    from model_choice_Some[OF mc] have f: "0 \<le> frame_count" by auto
    from model_choice_Some[OF mc] assms have ne: "images \<noteq> []" by auto
    have "predict_with E R g images frame_count model_path md
        = (Predictions
             (map (\<lambda>i. the (model_predict E model md (take (nat frame_count) (drop i tensor))))
                [0..<nat (int (length images) - frame_count + 1)])
             False, g)"
      by (rule predict_with_model[OF ex ne dec ld f t ok])
    then have r: "predictTransitions E R g images frame_count
        = (Predictions
             (map (\<lambda>i. the (model_predict E model md (take (nat frame_count) (drop i tensor))))
                [0..<nat (int (length images) - frame_count + 1)])
             False, g)"
      using mc by (simp add: predictTransitions_def)
    have lt: "length tensor = length images" by (simp add: t)
    have cover: "\<forall>i j. i < nat (int (length images) - frame_count + 1) \<and> j < nat frame_count
                    \<longrightarrow> take (nat frame_count) (drop i tensor) ! j = tensor ! (i + j)"
    proof (intro allI impI, elim conjE)
      fix i j
      assume i: "i < nat (int (length images) - frame_count + 1)" and j: "j < nat frame_count"
      then have "i + j < length tensor" using f lt by linarith
      with j show "take (nat frame_count) (drop i tensor) ! j = tensor ! (i + j)" by simp
    qed
    from r cover show "predictTransitions E R g images frame_count
                = (Predictions
                     (map (\<lambda>i. the (model_predict E model md (take (nat frame_count) (drop i tensor))))
                        [0..<nat (int (length images) - frame_count + 1)])
                     False, g)
              \<and> (\<forall>i j. i < nat (int (length images) - frame_count + 1) \<and> j < nat frame_count
                    \<longrightarrow> take (nat frame_count) (drop i tensor) ! j = tensor ! (i + j))"
      by (rule conjI)
  qed
  from a b c show ?thesis by (intro conjI)
qed

lemma example_images_length: "length example_images = 10"
  by (simp add: example_images_def)

theorem online_windowing_counterexample:
  "(5::int) \<le> int (length example_images)
   \<and> predictTransitions (example_env False) counting_random 0 example_images 5
       = (Fail (Unsupported_frame_count 5), 0)
   \<and> predictTransitions (example_env True) counting_random 0 example_images 5
       = (Fail (Unsupported_frame_count 5), 0)"
  by (simp add: predictTransitions_def model_choice_def example_images_length)

theorem online_windowing_witness:
  "(8::int) \<le> int (length example_images)
   \<and> predictTransitions (example_env False) counting_random 0 example_images 8
       = (Predictions [0, 0, 0] True, 3)
   \<and> predictTransitions (example_env True) counting_random 0 example_images 8
       = (Predictions [1, 0, 1] False, 0)"
proof -
  have le: "(8::int) \<le> int (length example_images)" by (simp add: example_images_length)
  have n: "nat (int (length example_images) - 8 + 1) = 3" by (simp add: example_images_length)
  have u: "[0..<3] = [0, 1, 2]" by (simp add: upt_rec)
  have mc: "model_choice 8 = Some (''../Results/resnet18/best_model.pth'', ''image_seq'')"
    by (simp add: model_choice_def)
  have rg: "range_from 0 (int (length example_images) - 8 + 1) 1 = [0, 1, 2]"
    by (simp add: range_from_unit example_images_length upt_rec)
  have "predict_with (example_env False) counting_random 0 example_images 8 p m
       = (Predictions [0, 0, 0] True, 3)" for p m
    unfolding predict_with_def rg by (simp add: example_env_def counting_random_def)
  then have rnd: "predictTransitions (example_env False) counting_random 0 example_images 8
       = (Predictions [0, 0, 0] True, 3)"
    by (simp add: predictTransitions_def mc)
  let ?tensor = "map (\<lambda>b. channel_mean (example_env True) (the (decode_image (example_env True) b)))
                   example_images"
  have t: "?tensor = example_images" by (simp add: example_env_def)
  have ok: "\<forall>i < nat (int (length example_images) - 8 + 1).
      model_predict (example_env True) () ''image_seq'' (take (nat 8) (drop i ?tensor)) \<noteq> None"
    by (simp add: example_env_def)
  from online_windowing[OF le, of "example_env True" counting_random 0]
  have "\<forall>model_path md model tensor.
          model_choice 8 = Some (model_path, md) \<and> path_exists (example_env True) model_path
          \<and> (\<forall>b\<in>set example_images. decode_image (example_env True) b \<noteq> None)
          \<and> torch_load (example_env True) model_path = Some model
          \<and> tensor = (if md = ''video'' then map (\<lambda>b. the (decode_image (example_env True) b)) example_images
                       else map (\<lambda>b. channel_mean (example_env True) (the (decode_image (example_env True) b))) example_images)
          \<and> (\<forall>i < nat (int (length example_images) - 8 + 1).
                 model_predict (example_env True) model md (take (nat 8) (drop i tensor)) \<noteq> None)
          \<longrightarrow> predictTransitions (example_env True) counting_random 0 example_images 8
                = (Predictions
                     (map (\<lambda>i. the (model_predict (example_env True) model md (take (nat 8) (drop i tensor))))
                        [0..<nat (int (length example_images) - 8 + 1)])
                     False, 0)
              \<and> (\<forall>i j. i < nat (int (length example_images) - 8 + 1) \<and> j < nat 8
                    \<longrightarrow> take (nat 8) (drop i tensor) ! j = tensor ! (i + j))"
    by (elim conjE)
  from this[rule_format, of "''../Results/resnet18/best_model.pth''" "''image_seq''" "()" ?tensor]
  have "predictTransitions (example_env True) counting_random 0 example_images 8
        = (Predictions
             (map (\<lambda>i. the (model_predict (example_env True) () ''image_seq'' (take (nat 8) (drop i ?tensor))))
                [0..<nat (int (length example_images) - 8 + 1)])
             False, 0)"
    using mc ok by (simp add: example_env_def)
  also have "map (\<lambda>i. the (model_predict (example_env True) () ''image_seq'' (take (nat 8) (drop i ?tensor))))
                [0..<nat (int (length example_images) - 8 + 1)] = [1, 0, 1]"
    unfolding t n u by (simp add: example_env_def example_images_def)
  finally have real: "predictTransitions (example_env True) counting_random 0 example_images 8
       = (Predictions [1, 0, 1] False, 0)" .
  from le rnd real show ?thesis by (intro conjI)
qed

section \<open>Insufficient inference input\<close>

lemma Embryo_Predict_short:
  assumes "json_body req = Some (field, images_field)" "field \<noteq> Field_invalid"
    and "frame_count = (case field of Field_int n \<Rightarrow> n | _ \<Rightarrow> 8)"
    and "images = (case images_field of None \<Rightarrow> [] | Some xs \<Rightarrow> xs)"
    and "int (length images) < frame_count"
  shows "Embryo_Predict E R g req
     = (if session_user_id req = None \<or> session_user_id req = Some 0
        then ((401, Fail User_not_authenticated), g)
        else ((400, Fail (Need_at_least_images frame_count (length images))), g))"
  using assms by (cases field) (simp_all add: Embryo_Predict_def)

text \<open>
  The guard is the route's: called on its own with fewer images than the frame count,
  \<open>predictTransitions\<close> reports success with no prediction.
\<close>

lemma predictTransitions_unguarded:
  "predictTransitions (example_env False) counting_random 0 (take 5 example_images) 8
     = (Predictions [] True, 0)"
proof -
  have "range_from 0 (int (length (take 5 example_images)) - 8 + 1) 1 = []"
    by (simp add: range_from_unit example_images_length)
  then show ?thesis
    unfolding predictTransitions_def predict_with_def
    by (simp add: model_choice_def example_env_def)
qed

text \<open>
  Claim C5. A prediction request that carries fewer images than its frame count, from
  an authenticated session and with a readable frame count, is answered with status 400
  and the message that at least \<open>frame_count\<close> images are needed (and how many came);
  the model is not consulted and the random generator is not touched. Whatever the
  session, the answer to such a request is a failure, never a list of predictions.
\<close>

theorem insufficient_inference_input:
  assumes "json_body req = Some (field, images_field)" "field \<noteq> Field_invalid"
    and "frame_count = (case field of Field_int n \<Rightarrow> n | _ \<Rightarrow> 8)"
    and "images = (case images_field of None \<Rightarrow> [] | Some xs \<Rightarrow> xs)"
    and "int (length images) < frame_count"
  shows "(session_user_id req \<noteq> None \<and> session_user_id req \<noteq> Some 0 \<longrightarrow>
            Embryo_Predict E R g req
              = ((400, Fail (Need_at_least_images frame_count (length images))), g))
         \<and> (\<exists>code m. Embryo_Predict E R g req = ((code, Fail m), g) \<and> code \<noteq> 200)"
  unfolding Embryo_Predict_short[OF assms] by simp

theorem insufficient_inference_input_witness:
  "json_body short_request = Some (Field_int 8, Some (take 5 example_images))
   \<and> int (length (take 5 example_images)) < 8
   \<and> Embryo_Predict (example_env False) counting_random 0 short_request
       = ((400, Fail (Need_at_least_images 8 5)), 0)"
proof -
  have b: "json_body short_request = Some (Field_int 8, Some (take 5 example_images))"
    by (simp add: short_request_def)
  have l: "int (length (take 5 example_images)) < 8"
    by (simp add: example_images_length)
  have s: "session_user_id short_request \<noteq> None \<and> session_user_id short_request \<noteq> Some 0"
    by (simp add: short_request_def)
  from insufficient_inference_input[where req = short_request and field = "Field_int 8"
        and images_field = "Some (take 5 example_images)" and frame_count = 8
        and images = "take 5 example_images" and E = "example_env False"
        and R = counting_random and g = 0] b l s
  have "Embryo_Predict (example_env False) counting_random 0 short_request
       = ((400, Fail (Need_at_least_images 8 (length (take 5 example_images)))), 0)"
    by simp
  with b l show ?thesis by (simp add: example_images_length)
qed

section \<open>The class balancer\<close>

lemma same_end_labels_total:
  assumes "seq \<noteq> []" "frame_phase ` set seq \<subseteq> dom p2i"
  shows "\<exists>same. same_end_labels p2i seq = Inr same"
proof -
  have "\<exists>labels. dict_get_all p2i ks = Inr labels" if "set ks \<subseteq> dom p2i" for ks
    using that by (induction ks) (auto simp: and_then_def dict_get_def)
  then obtain labels where "dict_get_all p2i (map frame_phase seq) = Inr labels"
    using assms(2) by force
  from same_end_labels_Inr(1)[OF this assms(1)] show ?thesis by blast
qed

lemma flag_partition_filter:
  assumes "\<forall>seq\<in>set pop. \<exists>same. same_end_labels p2i seq = Inr same"
  shows "flag_partition p2i pop f0 f1
     = Inr (f0 @ filter (\<lambda>s. same_end_labels p2i s = Inr True) pop,
            f1 @ filter (\<lambda>s. same_end_labels p2i s = Inr False) pop)"
  using assms
proof (induction pop arbitrary: f0 f1)
  case Nil
  show ?case by simp
next
  case (Cons seq pop)
  then obtain same where s: "same_end_labels p2i seq = Inr same" by auto
  from Cons.prems have rest: "\<forall>seq\<in>set pop. \<exists>same. same_end_labels p2i seq = Inr same" by simp
  show ?case
    by (cases same) (simp_all add: s and_then_def Cons.IH[OF rest])
qed

lemma flag_counts_filter:
  assumes "\<forall>seq\<in>set pop. \<exists>same. same_end_labels p2i seq = Inr same"
  shows "flag_counts p2i pop c0 c1
     = Inr (c0 + length (filter (\<lambda>s. same_end_labels p2i s = Inr True) pop),
            c1 + length (filter (\<lambda>s. same_end_labels p2i s = Inr False) pop))"
  using assms
proof (induction pop arbitrary: c0 c1)
  case Nil
  show ?case by simp
next
  case (Cons seq pop)
  then obtain same where s: "same_end_labels p2i seq = Inr same" by auto
  from Cons.prems have rest: "\<forall>seq\<in>set pop. \<exists>same. same_end_labels p2i seq = Inr same" by simp
  show ?case
    by (cases same) (simp_all add: s and_then_def Cons.IH[OF rest])
qed

lemma flag_counts_flagged:
  assumes "flag_counts p2i pop c0 c1 = Inr r"
  shows "\<forall>seq\<in>set pop. \<exists>same. same_end_labels p2i seq = Inr same"
  using assms
proof (induction pop arbitrary: c0 c1)
  case Nil
  show ?case by simp
next
  case (Cons seq pop)
  show ?case
  proof (cases "same_end_labels p2i seq")
    case (Inl e)
    with Cons.prems show ?thesis by (simp add: and_then_def)
  next
    case (Inr same)
    with Cons.prems have "flag_counts p2i pop (if same then c0 + 1 else c0)
        (if same then c1 else c1 + 1) = Inr r"
      by (cases same) (simp_all add: and_then_def)
    from Cons.IH[OF this] Inr show ?thesis by simp
  qed
qed

lemma flag_counts_error:
  assumes "flag_counts p2i pop c0 c1 = Inl e"
  shows "flag_partition p2i pop f0 f1 = Inl e"
  using assms
proof (induction pop arbitrary: c0 c1 f0 f1)
  case Nil
  then show ?case by simp
next
  case (Cons seq pop)
  show ?case
  proof (cases "same_end_labels p2i seq")
    case (Inl e')
    with Cons.prems show ?thesis by (simp add: and_then_def)
  next
    case (Inr same)
    show ?thesis
    proof (cases same)
      case True
      with Cons.prems Inr have "flag_counts p2i pop (c0 + 1) c1 = Inl e"
        by (simp add: and_then_def)
      from Cons.IH[OF this] show ?thesis using Inr True by (simp add: and_then_def)
    next
      case False
      with Cons.prems Inr have "flag_counts p2i pop c0 (c1 + 1) = Inl e"
        by (simp add: and_then_def)
      from Cons.IH[OF this] show ?thesis using Inr False by (simp add: and_then_def)
    qed
  qed
qed

lemma mset_positions_subset:
  assumes "distinct K" "set K \<subseteq> {..<length xs}"
  shows "mset (map (\<lambda>i. xs ! i) K) \<subseteq># mset xs"
proof -
  have "mset_set (set K) \<subseteq># mset_set {..<length xs}"
    by (rule subset_imp_msubset_mset_set[OF assms(2)]) simp
  moreover have "mset_set (set K) = mset K" by (rule mset_set_set[OF assms(1)])
  moreover have "mset_set {..<length xs} = mset [0..<length xs]"
    by (simp add: lessThan_atLeast0)
  ultimately have "mset K \<subseteq># mset [0..<length xs]" by simp
  then have "image_mset (\<lambda>i. xs ! i) (mset K) \<subseteq># image_mset (\<lambda>i. xs ! i) (mset [0..<length xs])"
    by (rule image_mset_subseteq_mono)
  moreover have "image_mset (\<lambda>i. xs ! i) (mset [0..<length xs]) = mset xs"
    by (simp only: mset_map[symmetric] map_nth)
  ultimately show ?thesis by simp
qed

lemma filter_positions:
  "filter P xs = map (\<lambda>i. xs ! i) (filter (\<lambda>i. P (xs ! i)) [0..<length xs])"
proof -
  have "filter P (map (\<lambda>i. xs ! i) [0..<length xs])
      = map (\<lambda>i. xs ! i) (filter (\<lambda>i. P (xs ! i)) [0..<length xs])"
    by (simp add: filter_map comp_def)
  then show ?thesis by (simp add: map_nth)
qed

lemma nth_map_positions:
  assumes "set js \<subseteq> {..<length ps}"
  shows "map (\<lambda>j. map (\<lambda>i. xs ! i) ps ! j) js = map (\<lambda>i. xs ! i) (map (\<lambda>j. ps ! j) js)"
  using assms by (induction js) simp_all

lemma distinct_positions:
  assumes "distinct ps" "distinct js" "set js \<subseteq> {..<length ps}"
  shows "distinct (map (\<lambda>j. ps ! j) js)" "set (map (\<lambda>j. ps ! j) js) \<subseteq> set ps"
proof -
  have "inj_on (\<lambda>j. ps ! j) (set js)"
  proof (rule inj_onI)
    fix x y
    assume "x \<in> set js" "y \<in> set js" and e: "ps ! x = ps ! y"
    with assms(3) have "x < length ps" "y < length ps" by auto
    with e show "x = y" using assms(1) by (simp add: nth_eq_iff_index_eq)
  qed
  with assms(2) show "distinct (map (\<lambda>j. ps ! j) js)" by (simp add: distinct_map)
  show "set (map (\<lambda>j. ps ! j) js) \<subseteq> set ps" using assms(3) by auto
qed

lemma mset_map_permutation:
  assumes "mset perm = mset [0..<length xs]"
  shows "mset (map (\<lambda>i. xs ! i) perm) = mset xs"
proof -
  have "mset (map (\<lambda>i. xs ! i) perm) = image_mset (\<lambda>i. xs ! i) (mset perm)" by simp
  also have "\<dots> = image_mset (\<lambda>i. xs ! i) (mset [0..<length xs])" by (simp only: assms)
  also have "\<dots> = mset (map (\<lambda>i. xs ! i) [0..<length xs])" by simp
  also have "\<dots> = mset xs" by (simp only: map_nth)
  finally show ?thesis .
qed

lemma permutation_positions:
  assumes "mset perm = mset [0..<length xs]"
  shows "set perm \<subseteq> {..<length xs}"
proof -
  from assms have "set perm = set [0..<length xs]" by (rule mset_eq_setD)
  then show ?thesis by auto
qed

lemma py_sample_contract:
  assumes "random_contract R" "k \<le> length xs"
  obtains idx g' where "py_sample R g xs k = Inr (map (\<lambda>i. xs ! i) idx, g')"
    "length idx = k" "distinct idx" "set idx \<subseteq> {..<length xs}"
proof -
  obtain idx g' where r: "random_sample R g (length xs) k = (idx, g')" by (cases "random_sample R g (length xs) k")
  from assms have "length (fst (random_sample R g (length xs) k)) = k
        \<and> distinct (fst (random_sample R g (length xs) k))
        \<and> set (fst (random_sample R g (length xs) k)) \<subseteq> {..<length xs}"
    unfolding random_contract_def by blast
  then have "length idx = k" "distinct idx" "set idx \<subseteq> {..<length xs}"
    by (simp_all add: r)
  moreover have "py_sample R g xs k = Inr (map (\<lambda>i. xs ! i) idx, g')"
    using assms(2) by (simp add: py_sample_def r)
  ultimately show ?thesis using that by blast
qed

lemma py_shuffle_contract:
  assumes "random_contract R"
  obtains perm g' where "py_shuffle R g xs = (map (\<lambda>i. xs ! i) perm, g')"
    "mset perm = mset [0..<length xs]"
proof -
  obtain perm g' where r: "random_shuffle R g (length xs) = (perm, g')"
    by (cases "random_shuffle R g (length xs)")
  from assms have "mset (fst (random_shuffle R g (length xs))) = mset [0..<length xs]"
    unfolding random_contract_def by blast
  then have "mset perm = mset [0..<length xs]" by (simp add: r)
  moreover have "py_shuffle R g xs = (map (\<lambda>i. xs ! i) perm, g')"
    by (simp add: py_shuffle_def r)
  ultimately show ?thesis using that by blast
qed

lemma balanced_draw:
  assumes contract: "random_contract R"
    and excl: "\<And>x. \<not> (P0 x \<and> P1 x)"
  shows "\<exists>K d0 g2 d1 g3 g4.
           py_sample R g1 (filter P0 pop) (min (length (filter P0 pop)) (length (filter P1 pop)))
             = Inr (d0, g2)
           \<and> py_sample R g2 (filter P1 pop) (min (length (filter P0 pop)) (length (filter P1 pop)))
             = Inr (d1, g3)
           \<and> py_shuffle R g3 (d0 @ d1) = (map (\<lambda>i. pop ! i) K, g4)
           \<and> distinct K \<and> set K \<subseteq> {..<length pop}
           \<and> length (filter (\<lambda>i. P0 (pop ! i)) K)
               = min (length (filter P0 pop)) (length (filter P1 pop))
           \<and> length (filter (\<lambda>i. P1 (pop ! i)) K)
               = min (length (filter P0 pop)) (length (filter P1 pop))
           \<and> length K = 2 * min (length (filter P0 pop)) (length (filter P1 pop))"
proof -
  let ?Ia = "filter (\<lambda>i. P0 (pop ! i)) [0..<length pop]"
  let ?Ib = "filter (\<lambda>i. P1 (pop ! i)) [0..<length pop]"
  let ?m = "min (length (filter P0 pop)) (length (filter P1 pop))"
  have f0: "filter P0 pop = map (\<lambda>i. pop ! i) ?Ia" by (rule filter_positions)
  have f1: "filter P1 pop = map (\<lambda>i. pop ! i) ?Ib" by (rule filter_positions)
  have l0: "length (filter P0 pop) = length ?Ia" by (subst f0) simp
  have l1: "length (filter P1 pop) = length ?Ib" by (subst f1) simp
  have m0: "?m \<le> length (filter P0 pop)" and m1: "?m \<le> length (filter P1 pop)" by simp_all
  from py_sample_contract[OF contract m0, of g1] obtain idx0 g2 where
    s0: "py_sample R g1 (filter P0 pop) ?m = Inr (map (\<lambda>i. filter P0 pop ! i) idx0, g2)"
    and i0: "length idx0 = ?m" "distinct idx0" "set idx0 \<subseteq> {..<length (filter P0 pop)}"
    by blast
  from py_sample_contract[OF contract m1, of g2] obtain idx1 g3 where
    s1: "py_sample R g2 (filter P1 pop) ?m = Inr (map (\<lambda>i. filter P1 pop ! i) idx1, g3)"
    and i1: "length idx1 = ?m" "distinct idx1" "set idx1 \<subseteq> {..<length (filter P1 pop)}"
    by blast
  let ?Ja = "map (\<lambda>j. ?Ia ! j) idx0"
  let ?Jb = "map (\<lambda>j. ?Ib ! j) idx1"
  have r0: "set idx0 \<subseteq> {..<length ?Ia}" using i0(3) unfolding l0 .
  have r1: "set idx1 \<subseteq> {..<length ?Ib}" using i1(3) unfolding l1 .
  have d0: "map (\<lambda>i. filter P0 pop ! i) idx0 = map (\<lambda>i. pop ! i) ?Ja"
    by (subst f0) (rule nth_map_positions[OF r0])
  have d1: "map (\<lambda>i. filter P1 pop ! i) idx1 = map (\<lambda>i. pop ! i) ?Jb"
    by (subst f1) (rule nth_map_positions[OF r1])
  have dI0: "distinct ?Ia" and dI1: "distinct ?Ib" by simp_all
  note J0 = distinct_positions[OF dI0 i0(2) r0]
  note J1 = distinct_positions[OF dI1 i1(2) r1]
  have disj: "set ?Ia \<inter> set ?Ib = {}" using excl by auto
  let ?Jall = "?Ja @ ?Jb"
  have "set ?Ja \<inter> set ?Jb = {}" using J0(2) J1(2) disj by blast
  with J0(1) J1(1) have dJ: "distinct ?Jall" by (simp only: distinct_append simp_thms)
  have sJ: "set ?Jall \<subseteq> {..<length pop}"
  proof -
    have "set ?Ia \<subseteq> {..<length pop}" "set ?Ib \<subseteq> {..<length pop}" by auto
    with J0(2) J1(2) have "set ?Ja \<subseteq> {..<length pop}" "set ?Jb \<subseteq> {..<length pop}"
      by blast+
    then show ?thesis by (simp only: set_append Un_subset_iff simp_thms)
  qed
  have pa: "P0 (pop ! i)" if "i \<in> set ?Ja" for i
  proof -
    from J0(2) that have "i \<in> set ?Ia" by (rule subsetD)
    then show ?thesis by simp
  qed
  have pb: "P1 (pop ! i)" if "i \<in> set ?Jb" for i
  proof -
    from J1(2) that have "i \<in> set ?Ib" by (rule subsetD)
    then show ?thesis by simp
  qed
  have na: "\<not> P0 (pop ! i)" if "i \<in> set ?Jb" for i
    using pb[OF that] excl[of "pop ! i"] by (simp only: simp_thms not_False_eq_True)
  have nb: "\<not> P1 (pop ! i)" if "i \<in> set ?Ja" for i
    using pa[OF that] excl[of "pop ! i"] by (simp only: simp_thms not_False_eq_True)
  have ca: "filter (\<lambda>i. P0 (pop ! i)) ?Ja = ?Ja" by (rule filter_True) (intro ballI pa)
  have cb: "filter (\<lambda>i. P0 (pop ! i)) ?Jb = []" by (rule filter_False) (intro ballI na)
  have cc: "filter (\<lambda>i. P1 (pop ! i)) ?Ja = []" by (rule filter_False) (intro ballI nb)
  have cd: "filter (\<lambda>i. P1 (pop ! i)) ?Jb = ?Jb" by (rule filter_True) (intro ballI pb)
  have c0: "filter (\<lambda>i. P0 (pop ! i)) ?Jall = ?Ja"
    unfolding filter_append ca cb by (rule append_Nil2)
  have c1: "filter (\<lambda>i. P1 (pop ! i)) ?Jall = ?Jb"
    unfolding filter_append cc cd by (rule append_Nil)
  have lJ0: "length ?Ja = ?m" and lJ1: "length ?Jb = ?m" using i0(1) i1(1) by simp_all
  let ?drawn = "map (\<lambda>i. pop ! i) ?Ja @ map (\<lambda>i. pop ! i) ?Jb"
  have drawn: "?drawn = map (\<lambda>i. pop ! i) ?Jall" by simp
  from py_shuffle_contract[OF contract, of g3 ?drawn] obtain perm g4 where
    sh: "py_shuffle R g3 ?drawn = (map (\<lambda>i. ?drawn ! i) perm, g4)"
    and pm: "mset perm = mset [0..<length ?drawn]" by blast
  have lend: "length ?drawn = length ?Jall" by simp
  have pmJ: "mset perm = mset [0..<length ?Jall]" using pm unfolding lend .
  let ?K = "map (\<lambda>j. ?Jall ! j) perm"
  have rp: "set perm \<subseteq> {..<length ?Jall}" by (rule permutation_positions[OF pmJ])
  have out: "map (\<lambda>i. ?drawn ! i) perm = map (\<lambda>i. pop ! i) ?K"
    unfolding drawn by (rule nth_map_positions[OF rp])
  have mK: "mset ?K = mset ?Jall" by (rule mset_map_permutation[OF pmJ])
  have "distinct ?K = distinct ?Jall" by (rule mset_eq_imp_distinct_iff[OF mK])
  with dJ have dK: "distinct ?K" by (simp only: simp_thms)
  have "set ?K = set ?Jall" by (rule mset_eq_setD[OF mK])
  with sJ have sK: "set ?K \<subseteq> {..<length pop}" by (simp only:)
  have cnt: "length (filter Q ?K) = length (filter Q ?Jall)" for Q
  proof -
    have "mset (filter Q ?K) = mset (filter Q ?Jall)" by (simp only: mset_filter mK)
    then show ?thesis by (rule mset_eq_length)
  qed
  have k0: "length (filter (\<lambda>i. P0 (pop ! i)) ?K) = ?m" unfolding cnt c0 by (rule lJ0)
  have k1: "length (filter (\<lambda>i. P1 (pop ! i)) ?K) = ?m" unfolding cnt c1 by (rule lJ1)
  have lK: "length ?K = 2 * ?m"
  proof -
    have "length ?K = length ?Jall" using mK by (rule mset_eq_length)
    also have "\<dots> = length ?Ja + length ?Jb" by simp
    finally show ?thesis unfolding lJ0 lJ1 by simp
  qed
  have e0: "py_sample R g1 (filter P0 pop) ?m = Inr (map (\<lambda>i. pop ! i) ?Ja, g2)"
    using s0 unfolding d0 .
  have e1: "py_sample R g2 (filter P1 pop) ?m = Inr (map (\<lambda>i. pop ! i) ?Jb, g3)"
    using s1 unfolding d1 .
  have e2: "py_shuffle R g3 (map (\<lambda>i. pop ! i) ?Ja @ map (\<lambda>i. pop ! i) ?Jb)
       = (map (\<lambda>i. pop ! i) ?K, g4)"
    using sh unfolding out .
  show ?thesis
    by (rule exI[of _ ?K], rule exI[of _ "map (\<lambda>i. pop ! i) ?Ja"], rule exI[of _ g2],
        rule exI[of _ "map (\<lambda>i. pop ! i) ?Jb"], rule exI[of _ g3], rule exI[of _ g4])
       (intro conjI e0 e1 e2 dK sK k0 k1 lK)
qed

lemma balance_flags_result:
  assumes contract: "random_contract R"
    and flagged: "\<forall>seq\<in>set (video_sequences self).
                    \<exists>same. same_end_labels (phase_to_index self) seq = Inr same"
  shows "\<exists>K g'.
           balance_flags R g self
             = Inr (self\<lparr>video_sequences := map (\<lambda>i. video_sequences self ! i) K\<rparr>, g')
           \<and> distinct K \<and> set K \<subseteq> {..<length (video_sequences self)}
           \<and> length (filter (\<lambda>i. same_end_labels (phase_to_index self) (video_sequences self ! i)
                                    = Inr True) K)
               = min (length (filter (\<lambda>s. same_end_labels (phase_to_index self) s = Inr True)
                                (video_sequences self)))
                     (length (filter (\<lambda>s. same_end_labels (phase_to_index self) s = Inr False)
                                (video_sequences self)))
           \<and> length (filter (\<lambda>i. same_end_labels (phase_to_index self) (video_sequences self ! i)
                                    = Inr False) K)
               = min (length (filter (\<lambda>s. same_end_labels (phase_to_index self) s = Inr True)
                                (video_sequences self)))
                     (length (filter (\<lambda>s. same_end_labels (phase_to_index self) s = Inr False)
                                (video_sequences self)))
           \<and> length K
               = 2 * min (length (filter (\<lambda>s. same_end_labels (phase_to_index self) s = Inr True)
                                    (video_sequences self)))
                         (length (filter (\<lambda>s. same_end_labels (phase_to_index self) s = Inr False)
                                    (video_sequences self)))"
proof -
  let ?p = "phase_to_index self" and ?pop = "video_sequences self"
  let ?P0 = "\<lambda>s. same_end_labels ?p s = Inr True"
  let ?P1 = "\<lambda>s. same_end_labels ?p s = Inr False"
  let ?m = "min (length (filter ?P0 ?pop)) (length (filter ?P1 ?pop))"
  have part: "flag_partition ?p ?pop [] [] = Inr (filter ?P0 ?pop, filter ?P1 ?pop)"
    using flag_partition_filter[OF flagged, of "[]" "[]"] by simp
  have excl: "\<not> (?P0 x \<and> ?P1 x)" for x by simp
  from balanced_draw[where pop = ?pop and ?g1.0 = "random_seed R 42" and ?P0.0 = ?P0
      and ?P1.0 = ?P1, OF contract excl]
  obtain K d0 g2 d1 g3 g4 where
    e0: "py_sample R (random_seed R 42) (filter ?P0 ?pop) ?m = Inr (d0, g2)"
    and e1: "py_sample R g2 (filter ?P1 ?pop) ?m = Inr (d1, g3)"
    and e2: "py_shuffle R g3 (d0 @ d1) = (map (\<lambda>i. ?pop ! i) K, g4)"
    and K: "distinct K" "set K \<subseteq> {..<length ?pop}"
      "length (filter (\<lambda>i. ?P0 (?pop ! i)) K) = ?m"
      "length (filter (\<lambda>i. ?P1 (?pop ! i)) K) = ?m"
      "length K = 2 * ?m"
    by blast
  have "balance_flags R g self = Inr (self\<lparr>video_sequences := map (\<lambda>i. ?pop ! i) K\<rparr>, g4)"
    unfolding balance_flags_def part and_then_def by (simp add: Let_def e0 e1 e2)
  with K show ?thesis by blast
qed

lemma counting_contract: "random_contract counting_random"
proof -
  have "set (drop (n - k) [0..<n]) \<subseteq> {..<n}" for n k :: nat
    using set_drop_subset[of "n - k" "[0..<n]"] by auto
  then show ?thesis
    unfolding random_contract_def counting_random_def by simp
qed

lemma balancer_example_flags:
  "same_end_labels example_index [frame_at ''1'' ''t2'', frame_at ''2'' ''t3''] = Inr False"
  "same_end_labels example_index [frame_at ''3'' ''t4'', frame_at ''4'' ''t4''] = Inr True"
  "same_end_labels example_index [frame_at ''5'' ''t4'', frame_at ''6'' ''t4''] = Inr True"
  by (simp_all add: same_end_labels_def and_then_def dict_get_def py_index_def frame_at_def
        example_index_def)

lemma balancer_example_counts: "print_flag_consistency balancer_example = Inr (2, 1)"
  by (simp add: print_flag_consistency_def balancer_example_def example_dataset_def
        balancer_example_flags and_then_def)

lemma balancer_example_run:
  "balance_flags counting_random g balancer_example
     = Inr (balancer_example\<lparr>video_sequences :=
              [[frame_at ''1'' ''t2'', frame_at ''2'' ''t3''],
               [frame_at ''5'' ''t4'', frame_at ''6'' ''t4'']]\<rparr>, 45)"
proof -
  have p: "flag_partition example_index (video_sequences balancer_example) [] []
      = Inr ([[frame_at ''3'' ''t4'', frame_at ''4'' ''t4''],
              [frame_at ''5'' ''t4'', frame_at ''6'' ''t4'']],
             [[frame_at ''1'' ''t2'', frame_at ''2'' ''t3'']])"
    by (simp add: balancer_example_def example_dataset_def balancer_example_flags and_then_def)
  have q: "phase_to_index balancer_example = example_index"
    by (simp add: balancer_example_def example_dataset_def)
  have u: "[0..<2] = [0, Suc 0]" "[0..<Suc 0] = [0]" by (simp_all add: upt_rec)
  show ?thesis
    unfolding balance_flags_def q p and_then_def
    by (simp add: py_sample_def py_shuffle_def counting_random_def u)
qed

lemma flag_counts_drawn:
  assumes flagged: "\<forall>seq\<in>set pop. \<exists>same. same_end_labels p2i seq = Inr same"
    and K: "set K \<subseteq> {..<length pop}"
  shows "flag_counts p2i (map (\<lambda>i. pop ! i) K) 0 0
     = Inr (length (filter (\<lambda>i. same_end_labels p2i (pop ! i) = Inr True) K),
            length (filter (\<lambda>i. same_end_labels p2i (pop ! i) = Inr False) K))"
proof -
  have "\<forall>seq\<in>set (map (\<lambda>i. pop ! i) K). \<exists>same. same_end_labels p2i seq = Inr same"
  proof
    fix seq
    assume "seq \<in> set (map (\<lambda>i. pop ! i) K)"
    then obtain i where "i \<in> set K" "seq = pop ! i" by auto
    with K have "seq \<in> set pop" by auto
    with flagged show "\<exists>same. same_end_labels p2i seq = Inr same" by blast
  qed
  from flag_counts_filter[OF this, of 0 0] show ?thesis
    by (simp add: filter_map comp_def)
qed

text \<open>
  Claim C4. The population is counted as the flag report of the code counts it:
  \<open>a\<close> windows whose first and last labels are equal (flag 0) and \<open>b\<close> windows whose
  labels differ (flag 1). For a generator that keeps the contract of
  \<^verbatim>\<open>random.sample\<close> and \<^verbatim>\<open>random.shuffle\<close>, \<^verbatim>\<open>_balance_flags\<close> returns without an
  exception; the new population is the old one read at pairwise distinct positions,
  hence a sub-multiset of it; the flag report of the new population is
  \<open>min a b\<close> and \<open>min a b\<close>; its size is \<open>2 * min a b\<close>; and it is empty when \<open>a\<close> or \<open>b\<close>
  is zero. When the flag report of the input raises (a window without frames, or a
  phase without an index), \<^verbatim>\<open>_balance_flags\<close> raises the same exception.
\<close>

theorem class_balancer:
  assumes "random_contract R"
  shows "(\<forall>a b. print_flag_consistency self = Inr (a, b) \<longrightarrow>
            (\<exists>K g'.
               balance_flags R g self
                 = Inr (self\<lparr>video_sequences := map (\<lambda>i. video_sequences self ! i) K\<rparr>, g')
               \<and> distinct K \<and> set K \<subseteq> {..<length (video_sequences self)}
               \<and> mset (map (\<lambda>i. video_sequences self ! i) K) \<subseteq># mset (video_sequences self)
               \<and> print_flag_consistency
                    (self\<lparr>video_sequences := map (\<lambda>i. video_sequences self ! i) K\<rparr>)
                  = Inr (min a b, min a b)
               \<and> length (map (\<lambda>i. video_sequences self ! i) K) = 2 * min a b
               \<and> (a = 0 \<or> b = 0 \<longrightarrow> map (\<lambda>i. video_sequences self ! i) K = [])))
       \<and> (\<forall>e. print_flag_consistency self = Inl e \<longrightarrow> balance_flags R g self = Inl e)"
proof (intro conjI allI impI)
  fix a b
  assume c: "print_flag_consistency self = Inr (a, b)"
  let ?p = "phase_to_index self" and ?pop = "video_sequences self"
  from c have fc: "flag_counts ?p ?pop 0 0 = Inr (a, b)"
    by (simp add: print_flag_consistency_def)
  have flagged: "\<forall>seq\<in>set ?pop. \<exists>same. same_end_labels ?p seq = Inr same"
    by (rule flag_counts_flagged[OF fc])
  from flag_counts_filter[OF flagged, of 0 0] fc
  have a: "a = length (filter (\<lambda>s. same_end_labels ?p s = Inr True) ?pop)"
    and b: "b = length (filter (\<lambda>s. same_end_labels ?p s = Inr False) ?pop)"
    by simp_all
  from balance_flags_result[OF assms flagged, of g, folded a b]
  obtain K g' where
    run: "balance_flags R g self = Inr (self\<lparr>video_sequences := map (\<lambda>i. ?pop ! i) K\<rparr>, g')"
    and K: "distinct K" "set K \<subseteq> {..<length ?pop}"
    and k0: "length (filter (\<lambda>i. same_end_labels ?p (?pop ! i) = Inr True) K) = min a b"
    and k1: "length (filter (\<lambda>i. same_end_labels ?p (?pop ! i) = Inr False) K) = min a b"
    and lK: "length K = 2 * min a b"
    by blast
  have sub: "mset (map (\<lambda>i. ?pop ! i) K) \<subseteq># mset ?pop"
    by (rule mset_positions_subset[OF K])
  have rep: "print_flag_consistency (self\<lparr>video_sequences := map (\<lambda>i. ?pop ! i) K\<rparr>)
      = Inr (min a b, min a b)"
    using flag_counts_drawn[OF flagged K(2)] by (simp add: print_flag_consistency_def k0 k1)
  have len: "length (map (\<lambda>i. ?pop ! i) K) = 2 * min a b" using lK by simp
  have emp: "a = 0 \<or> b = 0 \<longrightarrow> map (\<lambda>i. ?pop ! i) K = []"
  proof
    assume "a = 0 \<or> b = 0"
    then have "min a b = 0" by auto
    with lK show "map (\<lambda>i. ?pop ! i) K = []" by simp
  qed
  show "\<exists>K g'.
          balance_flags R g self = Inr (self\<lparr>video_sequences := map (\<lambda>i. ?pop ! i) K\<rparr>, g')
          \<and> distinct K \<and> set K \<subseteq> {..<length ?pop}
          \<and> mset (map (\<lambda>i. ?pop ! i) K) \<subseteq># mset ?pop
          \<and> print_flag_consistency (self\<lparr>video_sequences := map (\<lambda>i. ?pop ! i) K\<rparr>)
             = Inr (min a b, min a b)
          \<and> length (map (\<lambda>i. ?pop ! i) K) = 2 * min a b
          \<and> (a = 0 \<or> b = 0 \<longrightarrow> map (\<lambda>i. ?pop ! i) K = [])"
    by (rule exI[of _ K], rule exI[of _ g']) (intro conjI run K sub rep len emp)
next
  fix e
  assume "print_flag_consistency self = Inl e"
  then have "flag_counts (phase_to_index self) (video_sequences self) 0 0 = Inl e"
    by (simp add: print_flag_consistency_def)
  from flag_counts_error[OF this, of "[]" "[]"]
  show "balance_flags R g self = Inl e"
    by (simp add: balance_flags_def and_then_def)
qed

theorem class_balancer_witness:
  "random_contract counting_random
   \<and> print_flag_consistency balancer_example = Inr (2, 1)
   \<and> balance_flags counting_random 0 balancer_example
       = Inr (balancer_example\<lparr>video_sequences :=
                [[frame_at ''1'' ''t2'', frame_at ''2'' ''t3''],
                 [frame_at ''5'' ''t4'', frame_at ''6'' ''t4'']]\<rparr>, 45)
   \<and> print_flag_consistency
        (balancer_example\<lparr>video_sequences :=
           [[frame_at ''1'' ''t2'', frame_at ''2'' ''t3''],
            [frame_at ''5'' ''t4'', frame_at ''6'' ''t4'']]\<rparr>) = Inr (1, 1)
   \<and> print_flag_consistency one_class_example = Inr (2, 0)
   \<and> (\<exists>g'. balance_flags counting_random 0 one_class_example
              = Inr (one_class_example\<lparr>video_sequences := []\<rparr>, g'))
   \<and> print_flag_consistency unindexed_example = Inl KeyError
   \<and> balance_flags counting_random 0 unindexed_example = Inl KeyError"
proof -
  note balancer = class_balancer[OF counting_contract]
  have c1: "print_flag_consistency one_class_example = Inr (2, 0)"
    by (simp add: print_flag_consistency_def one_class_example_def example_dataset_def
          balancer_example_flags and_then_def)
  have "same_end_labels example_index [frame_at ''5'' ''t4'', frame_at ''6'' ''unknown'']
      = Inl KeyError"
    by (simp add: same_end_labels_def and_then_def dict_get_def frame_at_def example_index_def)
  then have c2: "print_flag_consistency unindexed_example = Inl KeyError"
    by (simp add: print_flag_consistency_def unindexed_example_def example_dataset_def
          balancer_example_flags and_then_def)
  from balancer[of balancer_example 0] balancer_example_counts
  obtain K g' where
    r: "balance_flags counting_random 0 balancer_example
          = Inr (balancer_example\<lparr>video_sequences :=
                   map (\<lambda>i. video_sequences balancer_example ! i) K\<rparr>, g')"
    and p: "print_flag_consistency
          (balancer_example\<lparr>video_sequences :=
             map (\<lambda>i. video_sequences balancer_example ! i) K\<rparr>) = Inr (min 2 1, min 2 1)"
    by blast
  from r have "balancer_example\<lparr>video_sequences :=
                   map (\<lambda>i. video_sequences balancer_example ! i) K\<rparr>
      = balancer_example\<lparr>video_sequences :=
                [[frame_at ''1'' ''t2'', frame_at ''2'' ''t3''],
                 [frame_at ''5'' ''t4'', frame_at ''6'' ''t4'']]\<rparr>"
    unfolding balancer_example_run by simp
  with p have p': "print_flag_consistency
        (balancer_example\<lparr>video_sequences :=
           [[frame_at ''1'' ''t2'', frame_at ''2'' ''t3''],
            [frame_at ''5'' ''t4'', frame_at ''6'' ''t4'']]\<rparr>) = Inr (1, 1)"
    by simp
  from balancer[of one_class_example 0] c1
  obtain K1 g1 where
    "balance_flags counting_random 0 one_class_example
          = Inr (one_class_example\<lparr>video_sequences :=
                   map (\<lambda>i. video_sequences one_class_example ! i) K1\<rparr>, g1)"
    and "(2::nat) = 0 \<or> (0::nat) = 0
           \<longrightarrow> map (\<lambda>i. video_sequences one_class_example ! i) K1 = []"
    by blast
  then have e: "\<exists>g'. balance_flags counting_random 0 one_class_example
              = Inr (one_class_example\<lparr>video_sequences := []\<rparr>, g')"
    by simp
  from balancer[of unindexed_example 0] c2
  have f: "balance_flags counting_random 0 unindexed_example = Inl KeyError" by blast
  show ?thesis
    by (intro conjI counting_contract balancer_example_counts balancer_example_run p' c1 e c2 f)
qed

section \<open>Determinism of the class balancer\<close>

text \<open>
  Claim C7. \<^verbatim>\<open>_balance_flags\<close> replaces the state of the generator by
  \<^verbatim>\<open>random.seed(42)\<close> before it draws, so the state it finds has no influence: two runs
  on one dataset object from any two states of the generator raise the same exception
  or return the same population, in the same order, and leave the same state. The
  only attributes read are the population and the phase index: a run on another
  object that has the same two returns the same population in the same order.
\<close>

theorem balancer_deterministic:
  "balance_flags R g1 self = balance_flags R g2 self
   \<and> (video_sequences self' = video_sequences self
        \<and> phase_to_index self' = phase_to_index self \<longrightarrow>
      (\<forall>e. balance_flags R g1 self = Inl e \<longrightarrow> balance_flags R g2 self' = Inl e)
      \<and> (\<forall>s h. balance_flags R g1 self = Inr (s, h) \<longrightarrow>
             balance_flags R g2 self' = Inr (self'\<lparr>video_sequences := video_sequences s\<rparr>, h)))"
proof (intro conjI impI allI)
  show "balance_flags R g1 self = balance_flags R g2 self"
    by (simp add: balance_flags_def)
next
  fix e
  assume "video_sequences self' = video_sequences self
        \<and> phase_to_index self' = phase_to_index self"
    and "balance_flags R g1 self = Inl e"
  then show "balance_flags R g2 self' = Inl e"
    by (auto simp: balance_flags_def and_then_def Let_def split: sum.splits prod.splits)
next
  fix s h
  assume "video_sequences self' = video_sequences self
        \<and> phase_to_index self' = phase_to_index self"
    and "balance_flags R g1 self = Inr (s, h)"
  then show "balance_flags R g2 self' = Inr (self'\<lparr>video_sequences := video_sequences s\<rparr>, h)"
    by (auto simp: balance_flags_def and_then_def Let_def split: sum.splits prod.splits)
qed

theorem balancer_deterministic_witness:
  "video_sequences (balancer_example\<lparr>window_size := 5\<rparr>) = video_sequences balancer_example
   \<and> phase_to_index (balancer_example\<lparr>window_size := 5\<rparr>) = phase_to_index balancer_example
   \<and> balance_flags counting_random 3 balancer_example
       = Inr (balancer_example\<lparr>video_sequences :=
                [[frame_at ''1'' ''t2'', frame_at ''2'' ''t3''],
                 [frame_at ''5'' ''t4'', frame_at ''6'' ''t4'']]\<rparr>, 45)
   \<and> balance_flags counting_random 7 (balancer_example\<lparr>window_size := 5\<rparr>)
       = Inr (balancer_example\<lparr>window_size := 5, video_sequences :=
                [[frame_at ''1'' ''t2'', frame_at ''2'' ''t3''],
                 [frame_at ''5'' ''t4'', frame_at ''6'' ''t4'']]\<rparr>, 45)"
proof -
  have a: "video_sequences (balancer_example\<lparr>window_size := 5\<rparr>) = video_sequences balancer_example
      \<and> phase_to_index (balancer_example\<lparr>window_size := 5\<rparr>) = phase_to_index balancer_example"
    by simp
  from balancer_deterministic[of counting_random 3 balancer_example 7
      "balancer_example\<lparr>window_size := 5\<rparr>"] a balancer_example_run[of 3]
  have "balance_flags counting_random 7 (balancer_example\<lparr>window_size := 5\<rparr>)
       = Inr (balancer_example\<lparr>window_size := 5, video_sequences :=
                [[frame_at ''1'' ''t2'', frame_at ''2'' ''t3''],
                 [frame_at ''5'' ''t4'', frame_at ''6'' ''t4'']]\<rparr>, 45)"
    by simp
  with a balancer_example_run[of 3] show ?thesis by simp
qed

end
